theory Spec2Isabelle
  imports Complex_Main "HOL-Library.Multiset" "HOL-Library.Monad_Syntax"
begin

section \<open>Numbers and strings of the host language\<close>

text \<open>
  The program is TypeScript. Its \<open>number\<close> values are modelled as exact reals (integers
  where the code only ever holds integers: colour channels, frequencies, lengths), its
  strings as lists of 8-bit characters (code units below 256).
\<close>

definition jsRound :: "real \<Rightarrow> real" where
  \<comment> \<open>\<open>Math.round\<close>: nearest integer, a tie goes up.\<close>
  "jsRound x = of_int \<lfloor>x + 1 / 2\<rfloor>"

definition jsTrunc :: "real \<Rightarrow> int" where
  "jsTrunc x = (if 0 \<le> x then \<lfloor>x\<rfloor> else \<lceil>x\<rceil>)"

definition jsRem :: "real \<Rightarrow> real \<Rightarrow> real" where
  \<comment> \<open>The \<open>%\<close> operator: the remainder has the sign of the dividend.\<close>
  "jsRem x y = x - y * of_int (jsTrunc (x / y))"

definition digitChar :: "nat \<Rightarrow> char" where
  "digitChar n = ''0123456789abcdef'' ! n"

fun natToBase :: "nat \<Rightarrow> nat \<Rightarrow> string" where
  "natToBase base n =
     (if base < 2 \<or> n < base then [digitChar n]
      else natToBase base (n div base) @ [digitChar (n mod base)])"

declare natToBase.simps [simp del]

definition intToString16 :: "int \<Rightarrow> string" where
  \<comment> \<open>\<open>n.toString(16)\<close> for an integer \<open>n\<close>.\<close>
  "intToString16 n = (if n < 0 then ''-'' else '''') @ natToBase 16 (nat \<bar>n\<bar>)"

definition padStart2 :: "string \<Rightarrow> string" where
  \<comment> \<open>\<open>s.padStart(2, '0')\<close>.\<close>
  "padStart2 str = replicate (2 - length str) CHR ''0'' @ str"

fun fracDigits :: "nat \<Rightarrow> real \<Rightarrow> string" where
  "fracDigits 0 x = []"
| "fracDigits (Suc k) x =
     (if x = 0 then []
      else digitChar (nat \<lfloor>x * 10\<rfloor>) # fracDigits k (x * 10 - of_int \<lfloor>x * 10\<rfloor>))"

definition numToString :: "real \<Rightarrow> string" where
  \<comment> \<open>Template-literal rendering of a number: sign, integer part, and the decimal
      fraction when there is one (at most 20 places; every number the theme prints
      has at most two).\<close>
  "numToString x =
     (let a = \<bar>x\<bar>; n = \<lfloor>a\<rfloor>; f = a - of_int n
      in (if x < 0 then ''-'' else '''') @ natToBase 10 (nat n) @
         (if f = 0 then '''' else ''.'' @ fracDigits 20 f))"

section \<open>Colour utilities\<close>

record RGB =
  r :: int
  g :: int
  b :: int

record HSL =
  h :: real
  s :: real
  l :: real

definition rgbToHsl :: "RGB \<Rightarrow> HSL" where
  "rgbToHsl rgb =
     (let r' = real_of_int (r rgb) / 255;
          g' = real_of_int (g rgb) / 255;
          b' = real_of_int (b rgb) / 255;
          mx = max r' (max g' b');
          mn = min r' (min g' b');
          l0 = (mx + mn) / 2;
          d = mx - mn;
          s0 = (if mx \<noteq> mn
                then (if l0 > 0.5 then d / (2 - mx - mn) else d / (mx + mn))
                else 0);
          h0 = (if mx \<noteq> mn
                then (if mx = r' then ((g' - b') / d + (if g' < b' then 6 else 0)) / 6
                      else if mx = g' then ((b' - r') / d + 2) / 6
                      else ((r' - g') / d + 4) / 6)
                else 0)
      in \<lparr> h = jsRound (h0 * 360 * 10) / 10,
           s = jsRound (s0 * 100 * 10) / 10,
           l = jsRound (l0 * 100 * 10) / 10 \<rparr>)"

definition hue2rgb :: "real \<Rightarrow> real \<Rightarrow> real \<Rightarrow> real" where
  "hue2rgb p q t0 =
     (let t1 = (if t0 < 0 then t0 + 1 else t0);
          t = (if t1 > 1 then t1 - 1 else t1)
      in if t < 1 / 6 then p + (q - p) * 6 * t
         else if t < 1 / 2 then q
         else if t < 2 / 3 then p + (q - p) * (2 / 3 - t) * 6
         else p)"

definition hslToRgb :: "HSL \<Rightarrow> RGB" where
  "hslToRgb hsl =
     (let h' = h hsl / 360;
          s' = s hsl / 100;
          l' = l hsl / 100
      in if s' = 0
         then \<lparr> r = \<lfloor>l' * 255 + 1 / 2\<rfloor>, g = \<lfloor>l' * 255 + 1 / 2\<rfloor>, b = \<lfloor>l' * 255 + 1 / 2\<rfloor> \<rparr>
         else
           (let q = (if l' < 0.5 then l' * (1 + s') else l' + s' - l' * s');
                p = 2 * l' - q
            in \<lparr> r = \<lfloor>hue2rgb p q (h' + 1 / 3) * 255 + 1 / 2\<rfloor>,
                 g = \<lfloor>hue2rgb p q h' * 255 + 1 / 2\<rfloor>,
                 b = \<lfloor>hue2rgb p q (h' - 1 / 3) * 255 + 1 / 2\<rfloor> \<rparr>))"

definition formatHslForShadcn :: "HSL \<Rightarrow> string" where
  "formatHslForShadcn hsl =
     numToString (h hsl) @ '' '' @ numToString (s hsl) @ ''% '' @ numToString (l hsl) @ ''%''"

definition linearChannel :: "int \<Rightarrow> real" where
  "linearChannel c =
     (let x = real_of_int c / 255
      in if x \<le> 0.03928 then x / 12.92 else ((x + 0.055) / 1.055) powr 2.4)"

definition getLuminance :: "RGB \<Rightarrow> real" where
  "getLuminance rgb =
     0.2126 * linearChannel (r rgb) + 0.7152 * linearChannel (g rgb)
       + 0.0722 * linearChannel (b rgb)"

definition isLightColor :: "RGB \<Rightarrow> bool" where
  "isLightColor rgb \<longleftrightarrow> getLuminance rgb > 0.5"

definition colorDistance :: "RGB \<Rightarrow> RGB \<Rightarrow> real" where
  "colorDistance c1 c2 =
     sqrt (real_of_int ((r c1 - r c2)\<^sup>2 + (g c1 - g c2)\<^sup>2 + (b c1 - b c2)\<^sup>2))"

subsection \<open>Parsing colour literals\<close>

definition isSpace :: "char \<Rightarrow> bool" where
  \<comment> \<open>White space of \<open>trim\<close> and of the pattern class \<open>\s\<close>, among code units below 256.\<close>
  "isSpace c \<longleftrightarrow> (of_char c :: nat) \<in> {9, 10, 11, 12, 13, 32, 160}"

definition trim :: "string \<Rightarrow> string" where
  "trim str = rev (dropWhile isSpace (rev (dropWhile isSpace str)))"

definition lowerChar :: "char \<Rightarrow> char" where
  "lowerChar c =
     (let n = (of_char c :: nat)
      in if (65 \<le> n \<and> n \<le> 90) \<or> (192 \<le> n \<and> n \<le> 222 \<and> n \<noteq> 215)
         then char_of (n + 32) else c)"

definition toLowerCase :: "string \<Rightarrow> string" where
  "toLowerCase str = map lowerChar str"

definition isDigit :: "char \<Rightarrow> bool" where
  "isDigit c \<longleftrightarrow> c \<in> set ''0123456789''"

definition isHexDigit :: "char \<Rightarrow> bool" where
  \<comment> \<open>The class \<open>[a-f\d]\<close> under the flag \<open>i\<close>.\<close>
  "isHexDigit c \<longleftrightarrow> c \<in> set ''0123456789abcdefABCDEF''"

definition hexDigitValue :: "char \<Rightarrow> nat" where
  "hexDigitValue c =
     (if isDigit c then of_char c - 48
      else if c \<in> set ''abcdef'' then of_char c - 87
      else of_char c - 55)"

definition parseHex :: "string \<Rightarrow> int" where
  \<comment> \<open>\<open>parseInt(str, 16)\<close> on a string of hexadecimal digits.\<close>
  "parseHex str = int (foldl (\<lambda>acc c. acc * 16 + hexDigitValue c) 0 str)"

definition parseDec :: "string \<Rightarrow> nat" where
  \<comment> \<open>\<open>parseInt(str)\<close> on a string of decimal digits.\<close>
  "parseDec str = foldl (\<lambda>acc c. acc * 10 + (of_char c - 48)) 0 str"

definition hexToRgb :: "string \<Rightarrow> RGB option" where
  "hexToRgb str =
     (let body = (case str of c # cs \<Rightarrow> if c = CHR ''#'' then cs else str | [] \<Rightarrow> str)
      in if length body = 6 \<and> list_all isHexDigit body
         then Some \<lparr> r = parseHex (take 2 body),
                     g = parseHex (take 2 (drop 2 body)),
                     b = parseHex (take 2 (drop 4 body)) \<rparr>
         else if length body = 3 \<and> list_all isHexDigit body
         then Some \<lparr> r = parseHex [body ! 0, body ! 0],
                     g = parseHex [body ! 1, body ! 1],
                     b = parseHex [body ! 2, body ! 2] \<rparr>
         else None)"

text \<open>
  The two functional notations are found by an unanchored pattern search: the pattern is
  tried at every position from the left. Each pattern below is deterministic (a greedy
  run of digits or blanks is always followed by a character outside the run's class), so
  matching at one position is a single left-to-right pass.
\<close>

fun firstMatch :: "(string \<Rightarrow> 'a option) \<Rightarrow> string \<Rightarrow> 'a option" where
  "firstMatch m [] = m []"
| "firstMatch m (c # cs) = (case m (c # cs) of Some x \<Rightarrow> Some x | None \<Rightarrow> firstMatch m cs)"

fun dropPrefix :: "string \<Rightarrow> string \<Rightarrow> string option" where
  "dropPrefix [] str = Some str"
| "dropPrefix (p # ps) [] = None"
| "dropPrefix (p # ps) (c # cs) = (if p = c then dropPrefix ps cs else None)"

definition optChar :: "char \<Rightarrow> string \<Rightarrow> string" where
  "optChar x str = (case str of c # cs \<Rightarrow> if c = x then cs else str | [] \<Rightarrow> str)"

definition digits1 :: "string \<Rightarrow> (string \<times> string) option" where
  \<comment> \<open>\<open>\d+\<close>: the longest non-empty run of digits and what follows it.\<close>
  "digits1 str =
     (if takeWhile isDigit str = [] then None
      else Some (takeWhile isDigit str, dropWhile isDigit str))"

definition decimal1 :: "string \<Rightarrow> (real \<times> string) option" where
  \<comment> \<open>\<open>\d+(?:\.\d+)?\<close> read by \<open>parseFloat\<close>.\<close>
  "decimal1 str =
     do {
       (ip, rest) \<leftarrow> digits1 str;
       case dropPrefix ''.'' rest of
         None \<Rightarrow> Some (real (parseDec ip), rest)
       | Some rest1 \<Rightarrow>
           (case digits1 rest1 of
              None \<Rightarrow> Some (real (parseDec ip), rest)
            | Some (fp, rest2) \<Rightarrow>
                Some (real (parseDec ip) + real (parseDec fp) / 10 ^ length fp, rest2))
     }"

definition rgbMatchAt :: "string \<Rightarrow> (nat \<times> nat \<times> nat) option" where
  \<comment> \<open>\<open>rgba?\((\d+),\s*(\d+),\s*(\d+)\<close> at the head of the string.\<close>
  "rgbMatchAt str =
     do {
       s1 \<leftarrow> dropPrefix ''rgb'' str;
       s2 \<leftarrow> dropPrefix ''('' (optChar CHR ''a'' s1);
       (d1, s3) \<leftarrow> digits1 s2;
       s4 \<leftarrow> dropPrefix '','' s3;
       (d2, s5) \<leftarrow> digits1 (dropWhile isSpace s4);
       s6 \<leftarrow> dropPrefix '','' s5;
       (d3, s7) \<leftarrow> digits1 (dropWhile isSpace s6);
       Some (parseDec d1, parseDec d2, parseDec d3)
     }"

definition hslMatchAt :: "string \<Rightarrow> (real \<times> real \<times> real) option" where
  \<comment> \<open>\<open>hsla?\((\d+(?:\.\d+)?),\s*(\d+(?:\.\d+)?)%?,\s*(\d+(?:\.\d+)?)%?\<close> at the head.\<close>
  "hslMatchAt str =
     do {
       s1 \<leftarrow> dropPrefix ''hsl'' str;
       s2 \<leftarrow> dropPrefix ''('' (optChar CHR ''a'' s1);
       (x1, s3) \<leftarrow> decimal1 s2;
       s4 \<leftarrow> dropPrefix '','' s3;
       (x2, s5) \<leftarrow> decimal1 (dropWhile isSpace s4);
       s6 \<leftarrow> dropPrefix '','' (optChar CHR ''%'' s5);
       (x3, s7) \<leftarrow> decimal1 (dropWhile isSpace s6);
       Some (x1, x2, x3)
     }"

definition namedColors :: "(string \<times> string) list" where
  "namedColors =
     [(''white'', ''#ffffff''), (''black'', ''#000000''), (''red'', ''#ff0000''),
      (''green'', ''#00ff00''), (''blue'', ''#0000ff''), (''yellow'', ''#ffff00''),
      (''cyan'', ''#00ffff''), (''magenta'', ''#ff00ff''), (''gray'', ''#808080''),
      (''grey'', ''#808080''), (''orange'', ''#ffa500''), (''purple'', ''#800080''),
      (''pink'', ''#ffc0cb''), (''transparent'', ''#00000000'')]"

definition parseColor :: "string \<Rightarrow> RGB option" where
  \<comment> \<open>A name inherited from the table object's prototype is looked up to a value that is
      no hexadecimal colour, so it ends in \<open>None\<close> like a name that is absent.\<close>
  "parseColor color0 =
     (let str = toLowerCase (trim color0)
      in if dropPrefix ''#'' str \<noteq> None then hexToRgb str
         else
           (case firstMatch rgbMatchAt str of
              Some (x, y, z) \<Rightarrow> Some \<lparr> r = int x, g = int y, b = int z \<rparr>
            | None \<Rightarrow>
                (case firstMatch hslMatchAt str of
                   Some (x, y, z) \<Rightarrow> Some (hslToRgb \<lparr> h = x, s = y, l = z \<rparr>)
                 | None \<Rightarrow>
                     (case map_of namedColors str of
                        Some hx \<Rightarrow> hexToRgb hx
                      | None \<Rightarrow> None))))"

section \<open>Theme generation\<close>

record ThemeColors =
  background :: string
  foreground :: string
  card :: string
  cardForeground :: string
  popover :: string
  popoverForeground :: string
  primary :: string
  primaryForeground :: string
  secondary :: string
  secondaryForeground :: string
  muted :: string
  mutedForeground :: string
  accent :: string
  accentForeground :: string
  destructive :: string
  destructiveForeground :: string
  border :: string
  input :: string
  ring :: string

record ColorDetail =
  hex :: string
  frequency :: nat
  hue :: int

record ExtractedTheme =
  light :: ThemeColors
  dark :: ThemeColors
  sourceColors :: "string list"
  colorDetails :: "ColorDetail list"

record ColorWithFrequency =
  color :: RGB
  hsl :: HSL
  frequency :: nat
  hex :: string

definition firstOf :: "'a list \<Rightarrow> 'a option" where
  \<comment> \<open>\<open>xs[0]\<close>, which is \<open>undefined\<close> on the empty array.\<close>
  "firstOf xs = (case xs of [] \<Rightarrow> None | x # _ \<Rightarrow> Some x)"

definition lastOf :: "'a list \<Rightarrow> 'a option" where
  \<comment> \<open>\<open>xs[xs.length - 1]\<close>.\<close>
  "lastOf xs = (if xs = [] then None else Some (last xs))"

definition sortDescBy :: "('a \<Rightarrow> real) \<Rightarrow> 'a list \<Rightarrow> 'a list" where
  \<comment> \<open>\<open>xs.sort((a, b) => key(b) - key(a))\<close>: the array sort is stable.\<close>
  "sortDescBy key xs = sort_key (\<lambda>x. - key x) xs"

definition sortColorsByLuminance :: "ColorWithFrequency list \<Rightarrow> ColorWithFrequency list" where
  "sortColorsByLuminance cs = sortDescBy (\<lambda>c. getLuminance (color c)) cs"

definition findForegroundColor ::
  "RGB \<Rightarrow> ColorWithFrequency list \<Rightarrow> ColorWithFrequency option" where
  "findForegroundColor bg cs =
     (let bgIsLight = isLightColor bg;
          candidates = filter (\<lambda>c. isLightColor (color c) \<noteq> bgIsLight) cs
      in if candidates = [] then None
         else firstOf (sortDescBy (\<lambda>c. colorDistance (color c) bg) candidates))"

definition hueBucket :: "HSL \<Rightarrow> real" where
  "hueBucket x = jsRem (jsRound (h x / 30) * 30) 360"

definition pushGroup ::
  "real \<Rightarrow> ColorWithFrequency \<Rightarrow> (real \<times> ColorWithFrequency list) list
     \<Rightarrow> (real \<times> ColorWithFrequency list) list" where
  "pushGroup k c gs =
     (if map_of gs k = None then gs @ [(k, [c])]
      else map (\<lambda>(k', cs). if k' = k then (k', cs @ [c]) else (k', cs)) gs)"

definition groupStep ::
  "(real \<times> ColorWithFrequency list) list \<Rightarrow> ColorWithFrequency
     \<Rightarrow> (real \<times> ColorWithFrequency list) list" where
  "groupStep gs c =
     (if s (hsl c) < 15 then gs
      else if l (hsl c) < 15 \<or> l (hsl c) > 90 then gs
      else pushGroup (hueBucket (hsl c)) c gs)"

definition groupColorsByHue ::
  "ColorWithFrequency list \<Rightarrow> (real \<times> ColorWithFrequency list) list" where
  \<comment> \<open>The map from bucket to colours, in insertion order.\<close>
  "groupColorsByHue cs = foldl groupStep [] cs"

definition isLikelyUIColor :: "HSL \<Rightarrow> bool" where
  "isLikelyUIColor x =
     (let isRedOrange = (h x \<ge> 0 \<and> h x \<le> 30) \<or> (h x \<ge> 330 \<and> h x \<le> 360)
      in isRedOrange \<and> s x > 70)"

definition groupScore :: "real \<Rightarrow> ColorWithFrequency list \<Rightarrow> real" where
  "groupScore bucketHue groupColors =
     (let totalFrequency = foldl (\<lambda>acc c. acc + real (frequency c)) 0 groupColors;
          avgSaturation =
            foldl (\<lambda>acc c. acc + s (hsl c)) 0 groupColors / real (length groupColors);
          avgHsl = \<lparr> h = bucketHue, s = avgSaturation,
                     l = foldl (\<lambda>acc c. acc + l (hsl c)) 0 groupColors
                           / real (length groupColors) \<rparr>;
          uiPenalty = (if isLikelyUIColor avgHsl then 0.3 else 1)
      in (totalFrequency * 0.7 + avgSaturation * 0.3) * uiPenalty)"

definition bestStep ::
  "(real \<times> ColorWithFrequency list \<times> real) option \<Rightarrow> real \<times> ColorWithFrequency list
     \<Rightarrow> (real \<times> ColorWithFrequency list \<times> real) option" where
  "bestStep best grp =
     (let score = groupScore (fst grp) (snd grp)
      in case best of
           None \<Rightarrow> Some (fst grp, snd grp, score)
         | Some (bh, bc, bs) \<Rightarrow>
             if score > bs then Some (fst grp, snd grp, score) else best)"

definition findPrimaryColor :: "ColorWithFrequency list \<Rightarrow> ColorWithFrequency option" where
  "findPrimaryColor cs =
     (let hueGroups = groupColorsByHue cs
      in if hueGroups = []
         then
           (let candidates =
                  filter (\<lambda>c. s (hsl c) > 20 \<and> l (hsl c) > 15 \<and> l (hsl c) < 85) cs
            in if candidates = [] then None
               else firstOf (sortDescBy (\<lambda>c. real (frequency c)) candidates))
         else
           (case foldl bestStep None hueGroups of
              None \<Rightarrow> None
            | Some (bh, groupColors, bs) \<Rightarrow>
                firstOf (sortDescBy (\<lambda>c. real (frequency c) * 2 + s (hsl c)) groupColors)))"

definition findAccentColor ::
  "ColorWithFrequency list \<Rightarrow> real \<Rightarrow> ColorWithFrequency option" where
  "findAccentColor cs primaryHue =
     (let candidates =
            filter (\<lambda>c.
              if s (hsl c) < 25 then False
              else if l (hsl c) < 20 \<or> l (hsl c) > 80 then False
              else (let hueDiff = \<bar>h (hsl c) - primaryHue\<bar>;
                        hueDistance = min hueDiff (360 - hueDiff)
                    in hueDistance > 60)) cs
      in if candidates = [] then None
         else firstOf (sortDescBy (\<lambda>c. real (frequency c)) candidates))"

definition muteColor :: "HSL \<Rightarrow> bool \<Rightarrow> HSL" where
  "muteColor x lightMode =
     (if lightMode
      then \<lparr> h = h x, s = min (s x * 0.3) 15, l = max (l x) 95 \<rparr>
      else \<lparr> h = h x, s = min (s x * 0.3) 15, l = min (l x) 15 \<rparr>)"

definition generateBorderColor :: "HSL \<Rightarrow> bool \<Rightarrow> HSL" where
  "generateBorderColor x lightMode =
     (if lightMode
      then \<lparr> h = h x, s = min (s x + 10) 40, l = max (l x - 10) 85 \<rparr>
      else \<lparr> h = h x, s = min (s x + 10) 40, l = min (l x + 15) 25 \<rparr>)"

definition rgbHexKey :: "RGB \<Rightarrow> string" where
  "rgbHexKey rgb =
     ''#'' @ padStart2 (intToString16 (r rgb)) @ padStart2 (intToString16 (g rgb))
       @ padStart2 (intToString16 (b rgb))"

definition addColor ::
  "(string \<times> ColorWithFrequency) list \<Rightarrow> string \<Rightarrow> (string \<times> ColorWithFrequency) list" where
  "addColor cm colorStr =
     (case parseColor colorStr of
        None \<Rightarrow> cm
      | Some rgb \<Rightarrow>
          (let hx = rgbHexKey rgb;
               hs = rgbToHsl rgb
           in if map_of cm hx \<noteq> None
              then map (\<lambda>(k, v). if k = hx then (k, v\<lparr>frequency := frequency v + 1\<rparr>)
                                 else (k, v)) cm
              else cm @ [(hx, \<lparr> color = rgb, hsl = hs, frequency = 1, hex = hx \<rparr>)]))"

definition buildColorMap :: "string list \<Rightarrow> (string \<times> ColorWithFrequency) list" where
  \<comment> \<open>The map from hex key to colour, in insertion order.\<close>
  "buildColorMap colorStrings = foldl addColor [] colorStrings"

definition displayColors :: "ColorWithFrequency list \<Rightarrow> ColorWithFrequency list" where
  "displayColors cs =
     take 12 (sortDescBy (\<lambda>c. real (frequency c))
       (filter (\<lambda>c. s (hsl c) > 10 \<or> (l (hsl c) > 5 \<and> l (hsl c) < 95)) cs))"

definition defaultLight :: RGB where
  "defaultLight = \<lparr> r = 255, g = 255, b = 255 \<rparr>"

definition defaultDark :: RGB where
  "defaultDark = \<lparr> r = 9, g = 9, b = 11 \<rparr>"

definition defaultPrimary :: RGB where
  "defaultPrimary = \<lparr> r = 24, g = 24, b = 27 \<rparr>"

definition generateTheme :: "string list \<Rightarrow> ExtractedTheme" where
  "generateTheme colorStrings =
     (let cs = map snd (buildColorMap colorStrings);
          sortedByLuminance = sortColorsByLuminance cs;
          third = nat \<lceil>real (length sortedByLuminance) / 3\<rceil>;
          lightestColors = take third sortedByLuminance;
          darkestColors =
            (if third = 0 then sortedByLuminance
             else drop (length sortedByLuminance - third) sortedByLuminance);
          primaryCandidate = findPrimaryColor cs;
          lightBackground =
            (case firstOf lightestColors of Some c \<Rightarrow> color c | None \<Rightarrow> defaultLight);
          darkBackground =
            (case lastOf darkestColors of Some c \<Rightarrow> color c | None \<Rightarrow> defaultDark);
          lightForeground =
            (case findForegroundColor lightBackground cs of
               Some c \<Rightarrow> color c | None \<Rightarrow> defaultDark);
          darkForeground =
            (case findForegroundColor darkBackground cs of
               Some c \<Rightarrow> color c | None \<Rightarrow> defaultLight);
          primaryRgb = (case primaryCandidate of Some c \<Rightarrow> color c | None \<Rightarrow> defaultPrimary);
          primaryHsl = rgbToHsl primaryRgb;
          secondaryHsl = \<lparr> h = h primaryHsl, s = max (s primaryHsl * 0.3) 10, l = 96 \<rparr>;
          secondaryDarkHsl = \<lparr> h = h primaryHsl, s = max (s primaryHsl * 0.3) 10, l = 17 \<rparr>;
          accentCandidate = findAccentColor cs (h primaryHsl);
          accentHsl =
            (case accentCandidate of
               Some c \<Rightarrow> hsl c
             | None \<Rightarrow> \<lparr> h = jsRem (h primaryHsl + 180) 360,
                          s = min (s primaryHsl) 60,
                          l = l primaryHsl \<rparr>);
          mutedLightHsl = muteColor (rgbToHsl lightBackground) True;
          mutedDarkHsl = muteColor (rgbToHsl darkBackground) False;
          borderLightHsl = generateBorderColor (rgbToHsl lightBackground) True;
          borderDarkHsl = generateBorderColor (rgbToHsl darkBackground) False;
          mutedForegroundLightHsl = \<lparr> h = h primaryHsl, s = 16, l = 47 \<rparr>;
          mutedForegroundDarkHsl = \<lparr> h = h primaryHsl, s = 20, l = 65 \<rparr>;
          primaryForegroundHsl =
            (if isLightColor primaryRgb
             then \<lparr> h = h primaryHsl, s = min (s primaryHsl) 50, l = 10 \<rparr>
             else \<lparr> h = h primaryHsl, s = min (s primaryHsl) 50, l = 98 \<rparr>);
          lightColors =
            \<lparr> background = formatHslForShadcn (rgbToHsl lightBackground),
              foreground = formatHslForShadcn (rgbToHsl lightForeground),
              card = formatHslForShadcn (rgbToHsl lightBackground),
              cardForeground = formatHslForShadcn (rgbToHsl lightForeground),
              popover = formatHslForShadcn (rgbToHsl lightBackground),
              popoverForeground = formatHslForShadcn (rgbToHsl lightForeground),
              primary = formatHslForShadcn primaryHsl,
              primaryForeground = formatHslForShadcn primaryForegroundHsl,
              secondary = formatHslForShadcn secondaryHsl,
              secondaryForeground = formatHslForShadcn primaryHsl,
              muted = formatHslForShadcn mutedLightHsl,
              mutedForeground = formatHslForShadcn mutedForegroundLightHsl,
              accent = formatHslForShadcn accentHsl,
              accentForeground = formatHslForShadcn primaryHsl,
              destructive = ''0 84.2% 60.2%'',
              destructiveForeground = ''0 0% 98%'',
              border = formatHslForShadcn borderLightHsl,
              input = formatHslForShadcn borderLightHsl,
              ring = formatHslForShadcn primaryHsl \<rparr>;
          darkPrimaryHsl =
            \<lparr> h = h primaryHsl, s = s primaryHsl, l = min (l primaryHsl + 20) 90 \<rparr>;
          darkColors =
            \<lparr> background = formatHslForShadcn (rgbToHsl darkBackground),
              foreground = formatHslForShadcn (rgbToHsl darkForeground),
              card = formatHslForShadcn (rgbToHsl darkBackground),
              cardForeground = formatHslForShadcn (rgbToHsl darkForeground),
              popover = formatHslForShadcn (rgbToHsl darkBackground),
              popoverForeground = formatHslForShadcn (rgbToHsl darkForeground),
              primary = formatHslForShadcn darkPrimaryHsl,
              primaryForeground = formatHslForShadcn \<lparr> h = h primaryHsl, s = 50, l = 10 \<rparr>,
              secondary = formatHslForShadcn secondaryDarkHsl,
              secondaryForeground = formatHslForShadcn darkPrimaryHsl,
              muted = formatHslForShadcn mutedDarkHsl,
              mutedForeground = formatHslForShadcn mutedForegroundDarkHsl,
              accent = formatHslForShadcn (accentHsl\<lparr> l := min (l accentHsl + 10) 80 \<rparr>),
              accentForeground = formatHslForShadcn darkPrimaryHsl,
              destructive = ''0 62.8% 30.6%'',
              destructiveForeground = ''0 0% 98%'',
              border = formatHslForShadcn borderDarkHsl,
              input = formatHslForShadcn borderDarkHsl,
              ring = formatHslForShadcn \<lparr> h = h primaryHsl, s = 27, l = 84 \<rparr> \<rparr>;
          sortedColors = displayColors cs
      in \<lparr> light = lightColors,
           dark = darkColors,
           sourceColors = map hex sortedColors,
           colorDetails =
             map (\<lambda>c. \<lparr> ColorDetail.hex = hex c,
                          ColorDetail.frequency = frequency c,
                          hue = \<lfloor>h (hsl c) + 1 / 2\<rfloor> \<rparr>) sortedColors \<rparr>)"

subsection \<open>The conversion to HSL before rounding\<close>

text \<open>
  The hue, saturation and lightness fractions that \<open>rgbToHsl\<close> computes before it rounds
  them, and the ramp that \<open>hue2rgb\<close> follows over one third of the hue circle: both serve
  to bound the error of a round trip.
\<close>

definition unroundedHsl :: "RGB \<Rightarrow> HSL" where
  "unroundedHsl rgb =
     (let r' = real_of_int (r rgb) / 255;
          g' = real_of_int (g rgb) / 255;
          b' = real_of_int (b rgb) / 255;
          mx = max r' (max g' b');
          mn = min r' (min g' b');
          l0 = (mx + mn) / 2;
          d = mx - mn;
          s0 = (if mx \<noteq> mn
                then (if l0 > 0.5 then d / (2 - mx - mn) else d / (mx + mn))
                else 0);
          h0 = (if mx \<noteq> mn
                then (if mx = r' then ((g' - b') / d + (if g' < b' then 6 else 0)) / 6
                      else if mx = g' then ((b' - r') / d + 2) / 6
                      else ((r' - g') / d + 4) / 6)
                else 0)
      in \<lparr> h = h0, s = s0, l = l0 \<rparr>)"

definition hueRamp :: "real \<Rightarrow> real" where
  "hueRamp u = max 0 (min 1 (min (6 * u) (4 - 6 * u)))"

subsection \<open>What the colour map holds\<close>

text \<open>
  The colour map described from the input, to compare with the fold that builds it: the
  colours that parse, in input order; of these, the first one met for each hex key; and
  for each of those an entry that counts the parsed colours sharing its key.
\<close>

definition parsedColors :: "string list \<Rightarrow> RGB list" where
  "parsedColors colorStrings = List.map_filter parseColor colorStrings"

fun firstByKey :: "('a \<Rightarrow> 'k) \<Rightarrow> 'a list \<Rightarrow> 'a list" where
  "firstByKey f [] = []"
| "firstByKey f (x # xs) = x # filter (\<lambda>y. f y \<noteq> f x) (firstByKey f xs)"

definition weightedColor :: "RGB list \<Rightarrow> RGB \<Rightarrow> ColorWithFrequency" where
  "weightedColor ps p =
     \<lparr> color = p, hsl = rgbToHsl p,
       frequency = length (filter (\<lambda>q. rgbHexKey q = rgbHexKey p) ps),
       hex = rgbHexKey p \<rparr>"

definition weightedColors :: "RGB list \<Rightarrow> ColorWithFrequency list" where
  "weightedColors ps = map (weightedColor ps) (firstByKey rgbHexKey ps)"

subsection \<open>The bucket score as the specification words it\<close>


definition totalFrequency :: "ColorWithFrequency list \<Rightarrow> real" where
  "totalFrequency grp = sum_list (map (\<lambda>c. real (frequency c)) grp)"



subsection \<open>Invariants of the primary selection\<close>



section \<open>Median-cut quantization\<close>

record ColorBucket =
  colors :: "RGB list"
  count :: nat

datatype Channel = ChannelR | ChannelG | ChannelB

definition channel :: "Channel \<Rightarrow> RGB \<Rightarrow> int" where
  "channel k c = (case k of ChannelR \<Rightarrow> r c | ChannelG \<Rightarrow> g c | ChannelB \<Rightarrow> b c)"

definition pickSortKey :: "RGB list \<Rightarrow> Channel" where
  "pickSortKey cs =
     (let rMin = foldl (\<lambda>m c. min m (r c)) 255 cs; rMax = foldl (\<lambda>m c. max m (r c)) 0 cs;
          gMin = foldl (\<lambda>m c. min m (g c)) 255 cs; gMax = foldl (\<lambda>m c. max m (g c)) 0 cs;
          bMin = foldl (\<lambda>m c. min m (b c)) 255 cs; bMax = foldl (\<lambda>m c. max m (b c)) 0 cs;
          rRange = rMax - rMin;
          gRange = gMax - gMin;
          bRange = bMax - bMin
      in if rRange \<ge> gRange \<and> rRange \<ge> bRange then ChannelR
         else if gRange \<ge> rRange \<and> gRange \<ge> bRange then ChannelG
         else ChannelB)"

definition splitBucket :: "ColorBucket \<Rightarrow> ColorBucket \<times> ColorBucket" where
  "splitBucket bucket =
     (let sortKey = pickSortKey (colors bucket);
          sorted = sort_key (channel sortKey) (colors bucket);
          mid = length sorted div 2;
          bucket1 = take mid sorted;
          bucket2 = drop mid sorted
      in (\<lparr> colors = bucket1, count = length bucket1 \<rparr>,
          \<lparr> colors = bucket2, count = length bucket2 \<rparr>))"

function medianCutLoop :: "int \<Rightarrow> ColorBucket list \<Rightarrow> ColorBucket list" where
  "medianCutLoop maxColors buckets =
     (if int (length buckets) < maxColors
      then
        (case sortDescBy (\<lambda>bk. real (count bk)) buckets of
           [] \<Rightarrow> []
         | bucket # rest \<Rightarrow>
             if length (colors bucket) < 2 then bucket # rest
             else medianCutLoop maxColors
                    ((fst (splitBucket bucket) # rest) @ [snd (splitBucket bucket)]))
      else buckets)"
  by pat_completeness auto
termination
proof (relation "measure (\<lambda>(m, bs). nat (m - int (length bs)))")
  show "wf (measure (\<lambda>(m, bs). nat (m - int (length bs))))"
    by simp
next
  fix maxColors :: int and bucket :: ColorBucket and rest buckets0
  assume lt: "int (length buckets0) < maxColors"
    and srt: "sortDescBy (\<lambda>bk. real (count bk)) buckets0 = bucket # rest"
  have "length (sortDescBy (\<lambda>bk. real (count bk)) buckets0) = length buckets0"
    by (simp add: sortDescBy_def)
  with srt have "length buckets0 = Suc (length rest)"
    by simp
  with lt show "((maxColors, (fst (splitBucket bucket) # rest) @ [snd (splitBucket bucket)]),
                 (maxColors, buckets0)) \<in> measure (\<lambda>(m, bs). nat (m - int (length bs)))"
    by simp
qed

declare medianCutLoop.simps [simp del]

definition averageColor :: "RGB list \<Rightarrow> RGB" where
  "averageColor cs =
     (let avg = foldl (\<lambda>acc c. \<lparr> r = r acc + r c, g = g acc + g c, b = b acc + b c \<rparr>)
                  \<lparr> r = 0, g = 0, b = 0 \<rparr> cs;
          n = real (length cs)
      in \<lparr> r = \<lfloor>real_of_int (r avg) / n + 1 / 2\<rfloor>,
           g = \<lfloor>real_of_int (g avg) / n + 1 / 2\<rfloor>,
           b = \<lfloor>real_of_int (b avg) / n + 1 / 2\<rfloor> \<rparr>)"

definition medianCutQuantize :: "RGB list \<Rightarrow> int \<Rightarrow> RGB list" where
  \<comment> \<open>The loop starts from one bucket and never removes one, so its empty case is never
      reached.\<close>
  "medianCutQuantize pixels maxColors =
     (if pixels = [] then []
      else map (\<lambda>bk. averageColor (colors bk))
             (medianCutLoop maxColors [\<lparr> colors = pixels, count = length pixels \<rparr>]))"

text \<open>
  The loop's invariant: every bucket is non-empty and its count is the number of its
  colours; the buckets together hold all the pixels.
\<close>

definition bucketsOk :: "ColorBucket list \<Rightarrow> bool" where
  "bucketsOk bs \<longleftrightarrow> list_all (\<lambda>bk. count bk = length (colors bk) \<and> colors bk \<noteq> []) bs"

definition totalColors :: "ColorBucket list \<Rightarrow> nat" where
  "totalColors bs = sum_list (map (\<lambda>bk. length (colors bk)) bs)"

section \<open>Properties of the generated theme\<close>

subsection \<open>The empty input\<close>

text \<open>
  A channel's linearised value never exceeds the base of its power, which is enough to see
  that the fallback primary colour is dark.
\<close>

lemma linearChannel_le:
  assumes "0 \<le> c" "c \<le> 255"
  shows "linearChannel c \<le> (real_of_int c / 255 + 0.055) / 1.055"
proof -
  define x where "x = real_of_int c / 255"
  have x: "0 \<le> x" "x \<le> 1" using assms by (simp_all add: x_def)
  define y where "y = (x + 0.055) / 1.055"
  have y: "0 \<le> y" "y \<le> 1" using x by (simp_all add: y_def)
  have "y powr 2.4 \<le> y powr 1"
    using y by (intro powr_mono') simp_all
  then have p: "y powr 2.4 \<le> y" using y by simp
  have q: "x / 12.92 \<le> y" using x by (simp add: y_def field_simps)
  have lc: "linearChannel c = (if x \<le> 0.03928 then x / 12.92 else y powr 2.4)"
    unfolding linearChannel_def Let_def x_def y_def by (rule refl)
  have "linearChannel c \<le> y"
    unfolding lc using p q by (cases "x \<le> 0.03928") (simp_all only: if_True if_False)
  then show ?thesis unfolding y_def x_def .
qed

lemma not_light_defaultPrimary: "isLightColor defaultPrimary = False"
proof -
  have "linearChannel 24 \<le> (24 / 255 + 0.055) / 1.055"
    using linearChannel_le [of 24] by simp
  moreover have "linearChannel 27 \<le> (27 / 255 + 0.055) / 1.055"
    using linearChannel_le [of 27] by simp
  ultimately show ?thesis
    by (simp add: isLightColor_def getLuminance_def defaultPrimary_def)
qed

lemma findForegroundColor_Nil: "findForegroundColor bg [] = None"
  by (simp add: findForegroundColor_def)

lemma findPrimaryColor_Nil: "findPrimaryColor [] = None"
  by (simp add: findPrimaryColor_def groupColorsByHue_def)

lemma findAccentColor_Nil: "findAccentColor [] x = None"
  by (simp add: findAccentColor_def)

lemma buildColorMap_Nil: "buildColorMap [] = []"
  by (simp add: buildColorMap_def)

lemma sortColorsByLuminance_Nil: "sortColorsByLuminance [] = []"
  by (simp add: sortColorsByLuminance_def sortDescBy_def)

lemma third_Nil: "nat \<lceil>real (length ([] :: ColorWithFrequency list)) / 3\<rceil> = 0"
  by simp

lemma firstOf_Nil: "firstOf [] = None"
  by (simp add: firstOf_def)

lemma lastOf_Nil: "lastOf [] = None"
  by (simp add: lastOf_def)

lemma rgbToHsl_defaultLight: "rgbToHsl defaultLight = \<lparr> h = 0, s = 0, l = 100 \<rparr>"
  by code_simp

lemma rgbToHsl_defaultDark: "rgbToHsl defaultDark = \<lparr> h = 240, s = 10, l = 3.9 \<rparr>"
  by code_simp

lemma rgbToHsl_defaultPrimary: "rgbToHsl defaultPrimary = \<lparr> h = 240, s = 5.9, l = 10 \<rparr>"
  by code_simp

lemma displayColors_Nil: "displayColors [] = []"
  by (simp add: displayColors_def sortDescBy_def)

text \<open>The whole theme computed on the empty input.\<close>

lemma generateTheme_Nil:
  "generateTheme [] =
     \<lparr> light = \<lparr> background = ''0 0% 100%'', foreground = ''240 10% 3.9%'',
                 card = ''0 0% 100%'', cardForeground = ''240 10% 3.9%'',
                 popover = ''0 0% 100%'', popoverForeground = ''240 10% 3.9%'',
                 primary = ''240 5.9% 10%'', primaryForeground = ''240 5.9% 98%'',
                 secondary = ''240 10% 96%'', secondaryForeground = ''240 5.9% 10%'',
                 muted = ''0 0% 100%'', mutedForeground = ''240 16% 47%'',
                 accent = ''60 5.9% 10%'', accentForeground = ''240 5.9% 10%'',
                 destructive = ''0 84.2% 60.2%'', destructiveForeground = ''0 0% 98%'',
                 border = ''0 10% 90%'', input = ''0 10% 90%'', ring = ''240 5.9% 10%'' \<rparr>,
       dark = \<lparr> background = ''240 10% 3.9%'', foreground = ''0 0% 100%'',
                card = ''240 10% 3.9%'', cardForeground = ''0 0% 100%'',
                popover = ''240 10% 3.9%'', popoverForeground = ''0 0% 100%'',
                primary = ''240 5.9% 30%'', primaryForeground = ''240 50% 10%'',
                secondary = ''240 10% 17%'', secondaryForeground = ''240 5.9% 30%'',
                muted = ''240 3% 3.9%'', mutedForeground = ''240 20% 65%'',
                accent = ''60 5.9% 20%'', accentForeground = ''240 5.9% 30%'',
                destructive = ''0 62.8% 30.6%'', destructiveForeground = ''0 0% 98%'',
                border = ''240 20% 18.9%'', input = ''240 20% 18.9%'', ring = ''240 27% 84%'' \<rparr>,
       sourceColors = [], colorDetails = [] \<rparr>"
  apply (simp only: generateTheme_def Let_def buildColorMap_Nil list.map sortColorsByLuminance_Nil
      third_Nil take_Nil drop_Nil simp_thms if_True if_False firstOf_Nil lastOf_Nil option.case
      findForegroundColor_Nil findPrimaryColor_Nil findAccentColor_Nil not_light_defaultPrimary
      displayColors_Nil rgbToHsl_defaultLight rgbToHsl_defaultDark rgbToHsl_defaultPrimary)
  apply code_simp
  done

lemma format_defaultLight: "formatHslForShadcn (rgbToHsl defaultLight) = ''0 0% 100%''"
  unfolding rgbToHsl_defaultLight by code_simp

lemma format_defaultDark: "formatHslForShadcn (rgbToHsl defaultDark) = ''240 10% 3.9%''"
  unfolding rgbToHsl_defaultDark by code_simp

text \<open>
  Claim C1. On the empty input list, \<open>generateTheme\<close> returns a complete theme: each of
  the 19 roles of the light and of the dark record is the string computed from the fixed
  fallback colours. The light background is \<open>0 0% 100%\<close>, the dark background is the
  rendering \<open>240 10% 3.9%\<close> of the fallback RGB(9, 9, 11), and both colour lists are empty.
\<close>

theorem generateTheme_empty:
  "generateTheme [] =
     \<lparr> light = \<lparr> background = ''0 0% 100%'', foreground = ''240 10% 3.9%'',
                 card = ''0 0% 100%'', cardForeground = ''240 10% 3.9%'',
                 popover = ''0 0% 100%'', popoverForeground = ''240 10% 3.9%'',
                 primary = ''240 5.9% 10%'', primaryForeground = ''240 5.9% 98%'',
                 secondary = ''240 10% 96%'', secondaryForeground = ''240 5.9% 10%'',
                 muted = ''0 0% 100%'', mutedForeground = ''240 16% 47%'',
                 accent = ''60 5.9% 10%'', accentForeground = ''240 5.9% 10%'',
                 destructive = ''0 84.2% 60.2%'', destructiveForeground = ''0 0% 98%'',
                 border = ''0 10% 90%'', input = ''0 10% 90%'', ring = ''240 5.9% 10%'' \<rparr>,
       dark = \<lparr> background = ''240 10% 3.9%'', foreground = ''0 0% 100%'',
                card = ''240 10% 3.9%'', cardForeground = ''0 0% 100%'',
                popover = ''240 10% 3.9%'', popoverForeground = ''0 0% 100%'',
                primary = ''240 5.9% 30%'', primaryForeground = ''240 50% 10%'',
                secondary = ''240 10% 17%'', secondaryForeground = ''240 5.9% 30%'',
                muted = ''240 3% 3.9%'', mutedForeground = ''240 20% 65%'',
                accent = ''60 5.9% 20%'', accentForeground = ''240 5.9% 30%'',
                destructive = ''0 62.8% 30.6%'', destructiveForeground = ''0 0% 98%'',
                border = ''240 20% 18.9%'', input = ''240 20% 18.9%'', ring = ''240 27% 84%'' \<rparr>,
       sourceColors = [], colorDetails = [] \<rparr>
   \<and> background (light (generateTheme [])) = formatHslForShadcn (rgbToHsl defaultLight)
   \<and> background (dark (generateTheme [])) = formatHslForShadcn (rgbToHsl defaultDark)"
  by (simp only: generateTheme_Nil format_defaultLight format_defaultDark
      ExtractedTheme.select_convs ThemeColors.select_convs simp_thms)

subsection \<open>Roles that repeat another role\<close>

lemma sourceColors_generateTheme:
  "sourceColors (generateTheme xs) = map hex (displayColors (map snd (buildColorMap xs)))"
  by (simp only: generateTheme_def Let_def ExtractedTheme.select_convs)

lemma colorDetails_generateTheme:
  "colorDetails (generateTheme xs) =
     map (\<lambda>c. \<lparr> ColorDetail.hex = hex c, ColorDetail.frequency = frequency c,
                 hue = \<lfloor>h (hsl c) + 1 / 2\<rfloor> \<rparr>) (displayColors (map snd (buildColorMap xs)))"
  by (simp only: generateTheme_def Let_def ExtractedTheme.select_convs)

text \<open>
  Claim C3. For every input, in the light record and in the dark record alike, the roles
  card and popover are the same string as background, and cardForeground and
  popoverForeground are the same string as foreground.
\<close>

theorem surfaces_share_background:
  "ThemeColors.card (light (generateTheme xs)) = background (light (generateTheme xs))
   \<and> popover (light (generateTheme xs)) = background (light (generateTheme xs))
   \<and> cardForeground (light (generateTheme xs)) = foreground (light (generateTheme xs))
   \<and> popoverForeground (light (generateTheme xs)) = foreground (light (generateTheme xs))
   \<and> ThemeColors.card (dark (generateTheme xs)) = background (dark (generateTheme xs))
   \<and> popover (dark (generateTheme xs)) = background (dark (generateTheme xs))
   \<and> cardForeground (dark (generateTheme xs)) = foreground (dark (generateTheme xs))
   \<and> popoverForeground (dark (generateTheme xs)) = foreground (dark (generateTheme xs))"
  by (simp only: generateTheme_def Let_def ExtractedTheme.select_convs ThemeColors.select_convs)

text \<open>
  Claim C9. For every input, the light roles secondaryForeground, accentForeground and
  ring are the same string as the light primary, and the dark roles secondaryForeground
  and accentForeground are the same string as the dark primary.
\<close>

theorem foreground_roles_mirror_primary:
  "secondaryForeground (light (generateTheme xs)) = primary (light (generateTheme xs))
   \<and> accentForeground (light (generateTheme xs)) = primary (light (generateTheme xs))
   \<and> ring (light (generateTheme xs)) = primary (light (generateTheme xs))
   \<and> secondaryForeground (dark (generateTheme xs)) = primary (dark (generateTheme xs))
   \<and> accentForeground (dark (generateTheme xs)) = primary (dark (generateTheme xs))"
  by (simp only: generateTheme_def Let_def ExtractedTheme.select_convs ThemeColors.select_convs)

section \<open>Selecting by a descending sort\<close>

lemma set_sortDescBy [simp]: "set (sortDescBy k xs) = set xs"
  by (simp add: sortDescBy_def)

lemma length_sortDescBy [simp]: "length (sortDescBy k xs) = length xs"
  by (simp add: sortDescBy_def)

lemma mset_sortDescBy [simp]: "mset (sortDescBy k xs) = mset xs"
  by (simp add: sortDescBy_def)

lemma sortDescBy_head_max:
  assumes "sortDescBy k xs = x # rest"
  shows "x \<in> set xs" and "\<forall>y\<in>set xs. k y \<le> k x"
proof -
  have "set (x # rest) = set xs"
    using assms set_sortDescBy [of k xs] by simp
  then show mem: "x \<in> set xs" by auto
  have "sorted (map (\<lambda>x. - k x) (sortDescBy k xs))"
    by (simp add: sortDescBy_def)
  then have "\<forall>y\<in>set rest. - k x \<le> - k y"
    using assms by simp
  moreover have "set xs = insert x (set rest)"
    using \<open>set (x # rest) = set xs\<close> by simp
  ultimately show "\<forall>y\<in>set xs. k y \<le> k x" by auto
qed

lemma firstOf_sortDescBy:
  assumes "firstOf (sortDescBy k xs) = Some x"
  shows "x \<in> set xs \<and> (\<forall>y\<in>set xs. k y \<le> k x)"
proof -
  obtain rest where "sortDescBy k xs = x # rest"
    using assms by (auto simp: firstOf_def split: list.splits)
  then show ?thesis using sortDescBy_head_max [of k xs x rest] by simp
qed

subsection \<open>The foreground selector\<close>

lemma linearChannel_255: "linearChannel 255 = 1"
  by (simp add: linearChannel_def)

lemma linearChannel_0: "linearChannel 0 = 0"
  by (simp add: linearChannel_def)

lemma isLight_white: "isLightColor \<lparr> r = 255, g = 255, b = 255 \<rparr> = True"
  by (simp add: isLightColor_def getLuminance_def linearChannel_255)

lemma isLight_black: "isLightColor \<lparr> r = 0, g = 0, b = 0 \<rparr> = False"
  by (simp add: isLightColor_def getLuminance_def linearChannel_0)


text \<open>
  Claim C5. Whenever the foreground selector returns a colour for a background, that
  colour is one of the given colours, its lightness class differs from the background's,
  and no given colour of the differing class is farther (Euclidean RGB distance) from the
  background.
\<close>

theorem findForegroundColor_contrast:
  assumes "findForegroundColor bg cs = Some c"
  shows "c \<in> set cs
         \<and> isLightColor (color c) \<noteq> isLightColor bg
         \<and> (\<forall>c'\<in>set cs. isLightColor (color c') \<noteq> isLightColor bg
               \<longrightarrow> colorDistance (color c') bg \<le> colorDistance (color c) bg)"
proof -
  define cands where "cands = filter (\<lambda>c. isLightColor (color c) \<noteq> isLightColor bg) cs"
  have "firstOf (sortDescBy (\<lambda>c. colorDistance (color c) bg) cands) = Some c"
    using assms by (simp add: findForegroundColor_def Let_def cands_def split: if_splits)
  then have "c \<in> set cands \<and> (\<forall>y\<in>set cands. colorDistance (color y) bg \<le> colorDistance (color c) bg)"
    by (rule firstOf_sortDescBy)
  then show ?thesis by (auto simp: cands_def)
qed

theorem findForegroundColor_contrast_witness:
  "findForegroundColor \<lparr> r = 255, g = 255, b = 255 \<rparr>
     [\<lparr> color = \<lparr> r = 255, g = 255, b = 255 \<rparr>, hsl = \<lparr> h = 0, s = 0, l = 100 \<rparr>,
        frequency = 1, hex = ''#ffffff'' \<rparr>,
      \<lparr> color = \<lparr> r = 0, g = 0, b = 0 \<rparr>, hsl = \<lparr> h = 0, s = 0, l = 0 \<rparr>,
        frequency = 1, hex = ''#000000'' \<rparr>]
     = Some \<lparr> color = \<lparr> r = 0, g = 0, b = 0 \<rparr>, hsl = \<lparr> h = 0, s = 0, l = 0 \<rparr>,
              frequency = 1, hex = ''#000000'' \<rparr>
   \<and> isLightColor \<lparr> r = 0, g = 0, b = 0 \<rparr> \<noteq> isLightColor \<lparr> r = 255, g = 255, b = 255 \<rparr>"
proof -
  have e: "findForegroundColor \<lparr> r = 255, g = 255, b = 255 \<rparr>
     [\<lparr> color = \<lparr> r = 255, g = 255, b = 255 \<rparr>, hsl = \<lparr> h = 0, s = 0, l = 100 \<rparr>,
        frequency = 1, hex = ''#ffffff'' \<rparr>,
      \<lparr> color = \<lparr> r = 0, g = 0, b = 0 \<rparr>, hsl = \<lparr> h = 0, s = 0, l = 0 \<rparr>,
        frequency = 1, hex = ''#000000'' \<rparr>]
     = Some \<lparr> color = \<lparr> r = 0, g = 0, b = 0 \<rparr>, hsl = \<lparr> h = 0, s = 0, l = 0 \<rparr>,
              frequency = 1, hex = ''#000000'' \<rparr>"
    by (simp add: findForegroundColor_def isLight_white isLight_black sortDescBy_def firstOf_def)
  from findForegroundColor_contrast [OF e] e show ?thesis by simp
qed

section \<open>Properties of the parser\<close>

text \<open>
  Claim C6 on the code. The table of named colours maps \<open>transparent\<close> to an eight-digit
  literal, which the hexadecimal reader (six or three digits only) rejects: the name parses
  to nothing, while the other thirteen names parse to a colour.
\<close>

theorem parseColor_transparent:
  "map_of namedColors ''transparent'' = Some ''#00000000''
   \<and> hexToRgb ''#00000000'' = None
   \<and> parseColor ''transparent'' = None"
  by code_simp

lemma parseColor_unrecognised:
  assumes "str = toLowerCase (trim c)"
    and "dropPrefix ''#'' str = None"
    and "firstMatch rgbMatchAt str = None"
    and "firstMatch hslMatchAt str = None"
    and "map_of namedColors str = None"
  shows "parseColor c = None"
  using assms by (simp add: parseColor_def Let_def)

lemma parseColor_other_names:
  "list_all (\<lambda>n. parseColor n \<noteq> None) (butlast (map fst namedColors))"
  by code_simp

section \<open>Properties of the quantizer\<close>

lemma splitBucket_props:
  assumes "2 \<le> length (colors bucket)"
  shows "colors (fst (splitBucket bucket)) \<noteq> []"
    and "colors (snd (splitBucket bucket)) \<noteq> []"
    and "count (fst (splitBucket bucket)) = length (colors (fst (splitBucket bucket)))"
    and "count (snd (splitBucket bucket)) = length (colors (snd (splitBucket bucket)))"
    and "length (colors (fst (splitBucket bucket))) + length (colors (snd (splitBucket bucket)))
           = length (colors bucket)"
proof -
  define srt where "srt = sort_key (channel (pickSortKey (colors bucket))) (colors bucket)"
  have len: "length srt = length (colors bucket)"
    by (simp add: srt_def)
  have fst_eq: "fst (splitBucket bucket)
                  = \<lparr> colors = take (length srt div 2) srt,
                      count = length (take (length srt div 2) srt) \<rparr>"
    and snd_eq: "snd (splitBucket bucket)
                  = \<lparr> colors = drop (length srt div 2) srt,
                      count = length (drop (length srt div 2) srt) \<rparr>"
    by (simp_all add: splitBucket_def Let_def srt_def)
  have mid: "1 \<le> length srt div 2" "length srt div 2 < length srt"
    using assms len by simp_all
  show "colors (fst (splitBucket bucket)) \<noteq> []"
    using mid by (auto simp: fst_eq)
  show "colors (snd (splitBucket bucket)) \<noteq> []"
    using mid by (simp add: snd_eq)
  show "count (fst (splitBucket bucket)) = length (colors (fst (splitBucket bucket)))"
    by (simp add: fst_eq)
  show "count (snd (splitBucket bucket)) = length (colors (snd (splitBucket bucket)))"
    by (simp add: snd_eq)
  show "length (colors (fst (splitBucket bucket))) + length (colors (snd (splitBucket bucket)))
           = length (colors bucket)"
    using mid len by (simp add: fst_eq snd_eq)
qed

lemma totalColors_sortDescBy: "totalColors (sortDescBy k bs) = totalColors bs"
proof -
  have "sum_mset (image_mset (\<lambda>bk. length (colors bk)) (mset (sortDescBy k bs)))
        = sum_mset (image_mset (\<lambda>bk. length (colors bk)) (mset bs))"
    by simp
  then show ?thesis
    unfolding totalColors_def by (metis mset_map sum_mset_sum_list)
qed

lemma bucketsOk_sortDescBy: "bucketsOk (sortDescBy k bs) = bucketsOk bs"
  by (simp add: bucketsOk_def list_all_iff)

lemma medianCutLoop_invariant:
  assumes "bucketsOk bs" "bs \<noteq> []" "int (length bs) \<le> n"
  shows "bucketsOk (medianCutLoop n bs)
         \<and> totalColors (medianCutLoop n bs) = totalColors bs
         \<and> int (length (medianCutLoop n bs)) \<le> n
         \<and> (int (length (medianCutLoop n bs)) < n
              \<longrightarrow> list_all (\<lambda>bk. length (colors bk) = 1) (medianCutLoop n bs))"
  using assms
proof (induction n bs rule: medianCutLoop.induct)
  case (1 n bs)
  show ?case
  proof (cases "int (length bs) < n")
    case False
    then have "medianCutLoop n bs = bs"
      by (subst medianCutLoop.simps) simp
    with False "1.prems" show ?thesis by simp
  next
    case True
    define srt where "srt = sortDescBy (\<lambda>bk. real (count bk)) bs"
    have "srt \<noteq> []" using "1.prems"(2) length_sortDescBy [of "\<lambda>bk. real (count bk)" bs]
      unfolding srt_def by (metis length_0_conv)
    then obtain bucket rest where srt: "srt = bucket # rest"
      by (cases srt) auto
    have ok: "bucketsOk srt" using "1.prems"(1) by (simp add: srt_def bucketsOk_sortDescBy)
    have tot: "totalColors srt = totalColors bs" by (simp add: srt_def totalColors_sortDescBy)
    have len: "length srt = length bs" by (simp add: srt_def)
    show ?thesis
    proof (cases "length (colors bucket) < 2")
      case small: True
      have out: "medianCutLoop n bs = srt"
        using True srt small by (subst medianCutLoop.simps) (simp add: srt_def)
      have mx: "\<forall>y\<in>set bs. real (count y) \<le> real (count bucket)"
        using sortDescBy_head_max(2) [of "\<lambda>bk. real (count bk)" bs bucket rest] srt
        by (simp add: srt_def)
      have "list_all (\<lambda>bk. length (colors bk) = 1) srt"
        unfolding list_all_iff
      proof
        fix y assume y: "y \<in> set srt"
        then have yb: "y \<in> set bs" by (simp add: srt_def)
        have "bucket \<in> set srt" using srt by simp
        then have cb: "count bucket = length (colors bucket)"
          using ok by (simp add: bucketsOk_def list_all_iff)
        have cy: "count y = length (colors y)" "colors y \<noteq> []"
          using ok y by (simp_all add: bucketsOk_def list_all_iff)
        have "count y \<le> count bucket" using mx yb by simp
        then have "length (colors y) \<le> length (colors bucket)"
          using cb cy by simp
        moreover have "length (colors y) \<noteq> 0" using cy by simp
        ultimately show "length (colors y) = 1" using small by linarith
      qed
      with out ok tot len True show ?thesis by simp
    next
      case big: False
      define nxt where "nxt = (fst (splitBucket bucket) # rest) @ [snd (splitBucket bucket)]"
      have out: "medianCutLoop n bs = medianCutLoop n nxt"
        using True srt big by (subst medianCutLoop.simps) (simp add: srt_def nxt_def)
      have two: "2 \<le> length (colors bucket)" using big by simp
      have okn: "bucketsOk nxt"
        using ok srt splitBucket_props(1-4) [OF two]
        by (simp add: bucketsOk_def nxt_def)
      have totn: "totalColors nxt = totalColors bs"
        using tot srt splitBucket_props(5) [OF two]
        by (simp add: totalColors_def nxt_def)
      have lenn: "int (length nxt) \<le> n"
        using True len srt by (simp add: nxt_def)
      have "nxt \<noteq> []" by (simp add: nxt_def)
      from "1.IH" [OF True srt [unfolded srt_def] big okn [unfolded nxt_def]
          \<open>nxt \<noteq> []\<close> [unfolded nxt_def] lenn [unfolded nxt_def]]
      show ?thesis
        using out totn by (simp add: nxt_def)
    qed
  qed
qed


lemma bucketsOk_length_le: "bucketsOk bs \<Longrightarrow> length bs \<le> totalColors bs"
proof (induction bs)
  case Nil
  then show ?case by (simp add: totalColors_def)
next
  case (Cons bk bs)
  then have "1 \<le> length (colors bk)" "bucketsOk bs"
    by (simp_all add: bucketsOk_def Suc_le_eq)
  with Cons.IH show ?case by (simp add: totalColors_def)
qed

lemma singletons_total:
  "list_all (\<lambda>bk. length (colors bk) = 1) bs \<Longrightarrow> totalColors bs = length bs"
  by (induction bs) (simp_all add: totalColors_def)

lemma medianCutQuantize_length:
  assumes "pixels \<noteq> []" "1 \<le> n"
  shows "length (medianCutQuantize pixels n) = min (nat n) (length pixels)"
proof -
  define start where "start = [\<lparr> colors = pixels, count = length pixels \<rparr>]"
  define out where "out = medianCutLoop n start"
  have "bucketsOk start" "start \<noteq> []" "int (length start) \<le> n" "totalColors start = length pixels"
    using assms by (simp_all add: start_def bucketsOk_def totalColors_def)
  from medianCutLoop_invariant [OF this(1-3)] this(4)
  have ok: "bucketsOk out" and tot: "totalColors out = length pixels"
    and le: "int (length out) \<le> n"
    and single: "int (length out) < n \<Longrightarrow> list_all (\<lambda>bk. length (colors bk) = 1) out"
    by (simp_all add: out_def)
  have len: "length (medianCutQuantize pixels n) = length out"
    using assms by (simp add: medianCutQuantize_def out_def start_def)
  have le_tot: "length out \<le> length pixels"
    using bucketsOk_length_le [OF ok] tot by simp
  show ?thesis
  proof (cases "int (length out) < n")
    case True
    then have "length out = length pixels"
      using singletons_total [OF single] tot by simp
    with True len show ?thesis by simp
  next
    case False
    with le have "int (length out) = n" by simp
    with le_tot len show ?thesis by auto
  qed
qed

text \<open>
  Claim C7, amended. For a non-empty pixel sequence and a target count of at least 1, the
  quantizer returns at most as many colours as the target, and fewer only if the pixels
  hold fewer distinct colours than the target.
\<close>

theorem medianCutQuantize_cap:
  assumes "pixels \<noteq> []" "1 \<le> n"
  shows "int (length (medianCutQuantize pixels n)) \<le> n
         \<and> (int (length (medianCutQuantize pixels n)) < n
              \<longrightarrow> int (Finite_Set.card (set pixels)) < n)"
proof -
  have "Finite_Set.card (set pixels) \<le> length pixels" by (rule card_length)
  then show ?thesis
    using medianCutQuantize_length [OF assms] assms by auto
qed

theorem medianCutQuantize_cap_witness:
  "int (length (medianCutQuantize
      [\<lparr> r = 9, g = 9, b = 11 \<rparr>, \<lparr> r = 9, g = 9, b = 11 \<rparr>, \<lparr> r = 200, g = 9, b = 11 \<rparr>] 2)) \<le> 2"
  using medianCutQuantize_cap
    [of "[\<lparr> r = 9, g = 9, b = 11 \<rparr>, \<lparr> r = 9, g = 9, b = 11 \<rparr>, \<lparr> r = 200, g = 9, b = 11 \<rparr>]" 2]
  by simp

text \<open>
  Claim C7 as stated fails for the target count 0: the loop starts from one bucket, so a
  non-empty input always yields at least one colour.
\<close>

theorem medianCutQuantize_zero_target:
  "medianCutQuantize [\<lparr> r = 0, g = 0, b = 0 \<rparr>] 0 = [\<lparr> r = 0, g = 0, b = 0 \<rparr>]
   \<and> \<not> int (length (medianCutQuantize [\<lparr> r = 0, g = 0, b = 0 \<rparr>] 0)) \<le> 0"
  by code_simp


section \<open>The colour map and the order of the input\<close>

text \<open>
  The fold that builds the colour map yields, in the order of first appearance, one entry
  for each hex key: the first colour parsed with that key, and the number of parsed colours
  sharing it.
\<close>

lemma firstByKey_subset: "set (firstByKey f xs) \<subseteq> set xs"
  by (induction xs) auto

lemma image_except: "f ` {y \<in> A. f y \<noteq> k} = f ` A - {k}"
  by auto

lemma firstByKey_keys: "f ` set (firstByKey f xs) = f ` set xs"
proof (induction xs)
  case Nil
  then show ?case by simp
next
  case (Cons x xs)
  have "f ` set (firstByKey f (x # xs)) = insert (f x) (f ` set (firstByKey f xs) - {f x})"
    by (simp add: image_except)
  also have "\<dots> = insert (f x) (f ` set xs)"
    using Cons.IH by auto
  finally show ?case by simp
qed

lemma firstByKey_snoc:
  "firstByKey f (xs @ [x]) =
     (if f x \<in> f ` set xs then firstByKey f xs else firstByKey f xs @ [x])"
proof (induction xs)
  case Nil
  then show ?case by simp
next
  case (Cons y ys)
  then show ?case by (auto simp: firstByKey_keys)
qed

lemma distinct_firstByKey: "distinct (map f (firstByKey f xs))"
  by (induction xs) (auto simp: distinct_map_filter)

lemma buildColorMap_snoc: "buildColorMap (xs @ [x]) = addColor (buildColorMap xs) x"
  by (simp add: buildColorMap_def)

lemma parsedColors_snoc:
  "parsedColors (xs @ [x]) =
     (case parseColor x of None \<Rightarrow> parsedColors xs | Some p \<Rightarrow> parsedColors xs @ [p])"
  by (simp add: parsedColors_def List.map_filter_def split: option.splits)

lemma map_of_keyed:
  "map_of (map (\<lambda>c. (hex c, c)) cs) k = None \<longleftrightarrow> k \<notin> hex ` set cs"
  by (induction cs) auto

lemma hex_weightedColor [simp]: "hex (weightedColor ps p) = rgbHexKey p"
  by (simp add: weightedColor_def)

theorem buildColorMap_weightedColors:
  "buildColorMap xs = map (\<lambda>c. (hex c, c)) (weightedColors (parsedColors xs))"
proof (induction xs rule: rev_induct)
  case Nil
  then show ?case
    by (simp add: buildColorMap_def parsedColors_def weightedColors_def List.map_filter_def)
next
  case (snoc x xs)
  define ps where "ps = parsedColors xs"
  show ?case
  proof (cases "parseColor x")
    case None
    then show ?thesis
      using snoc by (simp add: buildColorMap_snoc parsedColors_snoc addColor_def)
  next
    case (Some p)
    have keys: "hex ` set (weightedColors ps) = rgbHexKey ` set ps"
      by (simp add: weightedColors_def image_image firstByKey_keys)
    show ?thesis
    proof (cases "rgbHexKey p \<in> rgbHexKey ` set ps")
      case True
      have "map (\<lambda>(k, v). if k = rgbHexKey p then (k, v\<lparr>frequency := frequency v + 1\<rparr>) else (k, v))
              (map (\<lambda>c. (hex c, c)) (weightedColors ps))
            = map (\<lambda>c. (hex c, c)) (weightedColors (ps @ [p]))"
        using True
        by (auto simp: weightedColors_def firstByKey_snoc weightedColor_def)
      then show ?thesis
        using snoc Some True keys
        by (simp add: buildColorMap_snoc parsedColors_snoc addColor_def Let_def map_of_keyed
            ps_def [symmetric])
    next
      case False
      have "map (\<lambda>c. (hex c, c)) (weightedColors ps)
              @ [(rgbHexKey p, \<lparr> color = p, hsl = rgbToHsl p, frequency = 1, hex = rgbHexKey p \<rparr>)]
            = map (\<lambda>c. (hex c, c)) (weightedColors (ps @ [p]))"
      proof -
        have "filter (\<lambda>q. rgbHexKey q = rgbHexKey p) ps = []"
          using False by (simp add: filter_empty_conv) (metis image_eqI)
        moreover have "\<forall>q\<in>set (firstByKey rgbHexKey ps). rgbHexKey q \<noteq> rgbHexKey p"
          using False firstByKey_subset [of rgbHexKey ps] by (metis image_eqI subsetD)
        ultimately show ?thesis
          using False
          by (auto simp: weightedColors_def firstByKey_snoc weightedColor_def)
      qed
      then show ?thesis
        using snoc Some False keys
        by (simp add: buildColorMap_snoc parsedColors_snoc addColor_def Let_def map_of_keyed
            ps_def [symmetric])
    qed
  qed
qed


lemma colors_of_buildColorMap:
  "map snd (buildColorMap xs) = weightedColors (parsedColors xs)"
  by (simp add: buildColorMap_weightedColors comp_def)













subsection \<open>The colour summary\<close>

lemma set_displayColors: "set (displayColors cs) \<subseteq> set cs"
proof -
  have "set (displayColors cs)
          \<subseteq> set (sortDescBy (\<lambda>c. real (frequency c))
                  (filter (\<lambda>c. s (hsl c) > 10 \<or> (l (hsl c) > 5 \<and> l (hsl c) < 95)) cs))"
    unfolding displayColors_def by (rule set_take_subset)
  then show ?thesis by auto
qed

lemma length_displayColors: "length (displayColors cs) \<le> 12"
  by (simp add: displayColors_def)

text \<open>
  Claim C10. The two summary lists have the same length, at most 12. At every index the
  detail entry carries the hex string listed at that index in \<open>sourceColors\<close>, the
  frequency of the colour-map entry with that hex string, which is the number of parsed
  input colours with that hex key, and that entry's HSL hue rounded to the nearest integer.
\<close>

theorem colorDetails_match_sourceColors:
  "length (colorDetails (generateTheme xs)) = length (sourceColors (generateTheme xs))
   \<and> length (sourceColors (generateTheme xs)) \<le> 12
   \<and> (\<forall>i < length (sourceColors (generateTheme xs)).
         \<exists>c \<in> set (map snd (buildColorMap xs)).
           sourceColors (generateTheme xs) ! i = hex c
           \<and> colorDetails (generateTheme xs) ! i
               = \<lparr> ColorDetail.hex = hex c, ColorDetail.frequency = frequency c,
                   hue = round (h (hsl c)) \<rparr>
           \<and> frequency c = length (filter (\<lambda>p. rgbHexKey p = hex c) (parsedColors xs)))"
proof -
  define ds where "ds = displayColors (map snd (buildColorMap xs))"
  have src: "sourceColors (generateTheme xs) = map hex ds"
    by (simp only: sourceColors_generateTheme ds_def)
  have det: "colorDetails (generateTheme xs)
      = map (\<lambda>c. \<lparr> ColorDetail.hex = hex c, ColorDetail.frequency = frequency c,
                    hue = \<lfloor>h (hsl c) + 1 / 2\<rfloor> \<rparr>) ds"
    by (simp only: colorDetails_generateTheme ds_def)
  have sub: "set ds \<subseteq> set (map snd (buildColorMap xs))"
    unfolding ds_def by (rule set_displayColors)
  have freq: "frequency c = length (filter (\<lambda>p. rgbHexKey p = hex c) (parsedColors xs))"
    if "c \<in> set (map snd (buildColorMap xs))" for c
  proof -
    from that obtain p where "c = weightedColor (parsedColors xs) p"
      by (auto simp: colors_of_buildColorMap weightedColors_def)
    then show ?thesis by (simp add: weightedColor_def)
  qed
  have "\<exists>c \<in> set (map snd (buildColorMap xs)).
           sourceColors (generateTheme xs) ! i = hex c
           \<and> colorDetails (generateTheme xs) ! i
               = \<lparr> ColorDetail.hex = hex c, ColorDetail.frequency = frequency c,
                   hue = round (h (hsl c)) \<rparr>
           \<and> frequency c = length (filter (\<lambda>p. rgbHexKey p = hex c) (parsedColors xs))"
    if i: "i < length (sourceColors (generateTheme xs))" for i
  proof -
    have il: "i < length ds" using i by (simp add: src)
    then have mem: "ds ! i \<in> set (map snd (buildColorMap xs))"
      using sub nth_mem by blast
    show ?thesis
    proof (rule bexI [OF _ mem], intro conjI)
      show "sourceColors (generateTheme xs) ! i = hex (ds ! i)"
        using il by (simp add: src)
      show "colorDetails (generateTheme xs) ! i
               = \<lparr> ColorDetail.hex = hex (ds ! i), ColorDetail.frequency = frequency (ds ! i),
                   hue = round (h (hsl (ds ! i))) \<rparr>"
        using il by (simp add: det round_def)
      show "frequency (ds ! i)
              = length (filter (\<lambda>p. rgbHexKey p = hex (ds ! i)) (parsedColors xs))"
        by (rule freq [OF mem])
    qed
  qed
  moreover have "length (colorDetails (generateTheme xs)) = length (sourceColors (generateTheme xs))"
    by (simp add: src det)
  moreover have "length (sourceColors (generateTheme xs)) \<le> 12"
    by (simp add: src ds_def length_displayColors)
  ultimately show ?thesis by blast
qed

lemma display_example:
  "map hex (displayColors (map snd (buildColorMap [''#ff0000'', ''#FF0000'', ''red'', ''#0000ff''])))
     = [''#ff0000'', ''#0000ff'']"
  by code_simp

theorem colorDetails_match_sourceColors_witness:
  "sourceColors (generateTheme [''#ff0000'', ''#FF0000'', ''red'', ''#0000ff''])
     = [''#ff0000'', ''#0000ff'']
   \<and> ColorDetail.hex (colorDetails (generateTheme [''#ff0000'', ''#FF0000'', ''red'', ''#0000ff'']) ! 0)
       = ''#ff0000''"
proof -
  define inp where "inp = [''#ff0000'', ''#FF0000'', ''red'', ''#0000ff'']"
  define out where "out = [''#ff0000'', ''#0000ff'']"
  have src: "sourceColors (generateTheme inp) = out"
    unfolding inp_def out_def by (simp only: sourceColors_generateTheme display_example)
  have pos: "0 < length (sourceColors (generateTheme inp))"
    by (simp add: src out_def)
  have "\<forall>i < length (sourceColors (generateTheme inp)).
         \<exists>c \<in> set (map snd (buildColorMap inp)).
           sourceColors (generateTheme inp) ! i = hex c
           \<and> colorDetails (generateTheme inp) ! i
               = \<lparr> ColorDetail.hex = hex c, ColorDetail.frequency = frequency c,
                   hue = round (h (hsl c)) \<rparr>
           \<and> frequency c = length (filter (\<lambda>p. rgbHexKey p = hex c) (parsedColors inp))"
    by (rule conjunct2 [OF conjunct2 [OF colorDetails_match_sourceColors]])
  then have "0 < length (sourceColors (generateTheme inp)) \<longrightarrow>
         (\<exists>c \<in> set (map snd (buildColorMap inp)).
           sourceColors (generateTheme inp) ! 0 = hex c
           \<and> colorDetails (generateTheme inp) ! 0
               = \<lparr> ColorDetail.hex = hex c, ColorDetail.frequency = frequency c,
                   hue = round (h (hsl c)) \<rparr>
           \<and> frequency c = length (filter (\<lambda>p. rgbHexKey p = hex c) (parsedColors inp)))"
    by (rule spec)
  from this pos have "\<exists>c \<in> set (map snd (buildColorMap inp)).
           sourceColors (generateTheme inp) ! 0 = hex c
           \<and> colorDetails (generateTheme inp) ! 0
               = \<lparr> ColorDetail.hex = hex c, ColorDetail.frequency = frequency c,
                   hue = round (h (hsl c)) \<rparr>
           \<and> frequency c = length (filter (\<lambda>p. rgbHexKey p = hex c) (parsedColors inp))"
    by (rule mp)
  then have "ColorDetail.hex (colorDetails (generateTheme inp) ! 0) = sourceColors (generateTheme inp) ! 0"
  proof (elim bexE conjE)
    fix c
    assume a: "sourceColors (generateTheme inp) ! 0 = hex c"
      and b: "colorDetails (generateTheme inp) ! 0
               = \<lparr> ColorDetail.hex = hex c, ColorDetail.frequency = frequency c,
                   hue = round (h (hsl c)) \<rparr>"
    show ?thesis by (simp add: a b)
  qed
  then have "ColorDetail.hex (colorDetails (generateTheme inp) ! 0) = out ! 0"
    by (simp only: src)
  with src show ?thesis
    unfolding inp_def out_def by simp
qed


section \<open>Primary selection\<close>

















section \<open>The round trip through HSL\<close>

text \<open>
  Without rounding, \<open>hslToRgb\<close> inverts \<open>rgbToHsl\<close> exactly. Rounding moves lightness and
  saturation by at most 1/2000 and the hue fraction by at most 1/7200; a channel then moves
  by at most 1/480 of the full scale, about 0.53 of one step of 255.
\<close>

lemma jsRound_near: "\<bar>jsRound x - x\<bar> \<le> 1 / 2"
  unfolding jsRound_def by linarith

lemma floor_half_near:
  fixes x :: real and c :: int
  assumes "\<bar>x - of_int c\<bar> < 3 / 2"
  shows "\<bar>\<lfloor>x + 1 / 2\<rfloor> - c\<bar> \<le> 1"
  using assms by linarith

lemma hue2rgb_affine: "hue2rgb p q t = p + (q - p) * hue2rgb 0 1 t"
  by (auto simp: hue2rgb_def Let_def field_simps)

lemma hueRamp_range: "0 \<le> hueRamp u \<and> hueRamp u \<le> 1"
  by (simp add: hueRamp_def)

lemma hueRamp_lipschitz: "\<bar>hueRamp x - hueRamp y\<bar> \<le> 6 * \<bar>x - y\<bar>"
proof -
  have a: "\<bar>min (6 * x) (4 - 6 * x) - min (6 * y) (4 - 6 * y)\<bar> \<le> 6 * \<bar>x - y\<bar>"
    by (cases "6 * x \<le> 4 - 6 * x"; cases "6 * y \<le> 4 - 6 * y"; cases "x \<le> y")
       (simp_all add: min_def abs_if)
  have b: "\<bar>min 1 u - min 1 v\<bar> \<le> \<bar>u - v\<bar>" for u v :: real
    by linarith
  have c: "\<bar>max 0 u - max 0 v\<bar> \<le> \<bar>u - v\<bar>" for u v :: real
    by linarith
  show ?thesis
    unfolding hueRamp_def
    using a b [of "min (6 * x) (4 - 6 * x)" "min (6 * y) (4 - 6 * y)"]
      c [of "min 1 (min (6 * x) (4 - 6 * x))" "min 1 (min (6 * y) (4 - 6 * y))"]
    by linarith
qed

lemma hueRamp_outside: "u \<le> 0 \<or> 2 / 3 \<le> u \<Longrightarrow> hueRamp u = 0"
  by (auto simp: hueRamp_def)

lemma hue2rgb_unit_ramp:
  assumes "-1 \<le> t" "t \<le> 2"
  shows "hue2rgb 0 1 t = max (hueRamp t) (max (hueRamp (t + 1)) (hueRamp (t - 1)))"
proof -
  consider "t < 0" | "0 \<le> t" "t \<le> 1" | "1 < t" by linarith
  then show ?thesis
  proof cases
    case 1
    then have "hueRamp t = 0" "hueRamp (t - 1) = 0"
      by (simp_all add: hueRamp_outside)
    moreover have "hue2rgb 0 1 t = hueRamp (t + 1)"
      using 1 assms by (auto simp: hue2rgb_def Let_def hueRamp_def)
    ultimately show ?thesis using hueRamp_range [of "t + 1"] by simp
  next
    case 2
    then have "hueRamp (t + 1) = 0" "hueRamp (t - 1) = 0"
      by (simp_all add: hueRamp_outside)
    moreover have "hue2rgb 0 1 t = hueRamp t"
      using 2 by (auto simp: hue2rgb_def Let_def hueRamp_def)
    ultimately show ?thesis using hueRamp_range [of t] by simp
  next
    case 3
    then have "hueRamp t = 0" "hueRamp (t + 1) = 0"
      by (simp_all add: hueRamp_outside)
    moreover have "hue2rgb 0 1 t = hueRamp (t - 1)"
      using 3 assms by (auto simp: hue2rgb_def Let_def hueRamp_def)
    ultimately show ?thesis using hueRamp_range [of "t - 1"] by simp
  qed
qed

lemma hue2rgb_unit_range:
  assumes "-1 \<le> t" "t \<le> 2"
  shows "0 \<le> hue2rgb 0 1 t \<and> hue2rgb 0 1 t \<le> 1"
  using hue2rgb_unit_ramp [OF assms] hueRamp_range [of t] hueRamp_range [of "t + 1"]
    hueRamp_range [of "t - 1"]
  by linarith

lemma abs_max_diff:
  fixes a b c d :: real
  assumes "\<bar>a - c\<bar> \<le> e" "\<bar>b - d\<bar> \<le> e"
  shows "\<bar>max a b - max c d\<bar> \<le> e"
proof -
  have le: "a \<le> c + e" "c \<le> a + e" "b \<le> d + e" "d \<le> b + e"
    using assms by linarith+
  have 1: "max a b \<le> max c d + e"
    using le by (simp add: max_def)
  have 2: "max c d \<le> max a b + e"
    using le by (simp add: max_def)
  show ?thesis using 1 2 by linarith
qed

lemma hue2rgb_unit_lipschitz:
  assumes "-1 \<le> x" "x \<le> 2" "-1 \<le> y" "y \<le> 2"
  shows "\<bar>hue2rgb 0 1 x - hue2rgb 0 1 y\<bar> \<le> 6 * \<bar>x - y\<bar>"
proof -
  have a: "\<bar>hueRamp x - hueRamp y\<bar> \<le> 6 * \<bar>x - y\<bar>"
    by (rule hueRamp_lipschitz)
  have b: "\<bar>hueRamp (x + 1) - hueRamp (y + 1)\<bar> \<le> 6 * \<bar>x - y\<bar>"
    using hueRamp_lipschitz [of "x + 1" "y + 1"] by simp
  have c: "\<bar>hueRamp (x - 1) - hueRamp (y - 1)\<bar> \<le> 6 * \<bar>x - y\<bar>"
    using hueRamp_lipschitz [of "x - 1" "y - 1"] by simp
  show ?thesis
    unfolding hue2rgb_unit_ramp [OF assms(1,2)] hue2rgb_unit_ramp [OF assms(3,4)]
    by (intro abs_max_diff a b c)
qed


lemma hue2rgb_unit_pieces:
  "0 \<le> t \<Longrightarrow> t \<le> 1 / 6 \<Longrightarrow> hue2rgb 0 1 t = 6 * t"
  "1 / 6 \<le> t \<Longrightarrow> t \<le> 1 / 2 \<Longrightarrow> hue2rgb 0 1 t = 1"
  "1 / 2 \<le> t \<Longrightarrow> t \<le> 2 / 3 \<Longrightarrow> hue2rgb 0 1 t = 4 - 6 * t"
  "2 / 3 \<le> t \<Longrightarrow> t \<le> 1 \<Longrightarrow> hue2rgb 0 1 t = 0"
  "- 1 / 3 \<le> t \<Longrightarrow> t < 0 \<Longrightarrow> hue2rgb 0 1 t = 0"
  "1 < t \<Longrightarrow> t \<le> 7 / 6 \<Longrightarrow> hue2rgb 0 1 t = 6 * (t - 1)"
  "7 / 6 \<le> t \<Longrightarrow> t \<le> 3 / 2 \<Longrightarrow> hue2rgb 0 1 t = 1"
  by (auto simp: hue2rgb_def Let_def)

lemma hue_exact:
  fixes x y z :: real
  assumes mx: "mx = max x (max y z)" and mn: "mn = min x (min y z)"
    and ne: "mx \<noteq> mn" and d: "d = mx - mn"
    and h0: "h0 = (if mx = x then ((y - z) / d + (if y < z then 6 else 0)) / 6
                   else if mx = y then ((z - x) / d + 2) / 6
                   else ((x - y) / d + 4) / 6)"
  shows "0 \<le> h0 \<and> h0 \<le> 1
         \<and> d * hue2rgb 0 1 (h0 + 1 / 3) = x - mn
         \<and> d * hue2rgb 0 1 h0 = y - mn
         \<and> d * hue2rgb 0 1 (h0 - 1 / 3) = z - mn"
proof -
  have dpos: "0 < d" using mx mn ne d by (simp add: max_def min_def split: if_splits)
  consider (A) "mx = x" "z \<le> y" | (B) "mx = x" "y < z"
    | (C1) "mx \<noteq> x" "mx = y" "x \<le> z" | (C2) "mx \<noteq> x" "mx = y" "z < x"
    | (D1) "mx \<noteq> x" "mx \<noteq> y" "y \<le> x" | (D2) "mx \<noteq> x" "mx \<noteq> y" "x < y"
    by linarith
  then show ?thesis
  proof cases
    case A
    define u where "u = (y - z) / d"
    have mnd: "mn = z" "d = x - z"
      using A mx mn d by (auto simp: max_def min_def split: if_splits)
    have ud: "d * u = y - z" using dpos by (simp add: u_def)
    have ub: "0 \<le> u" "u \<le> 1"
      using A dpos mx mnd by (simp_all add: u_def max_def field_simps split: if_splits)
    have h: "h0 = u / 6" using A h0 by (simp add: u_def add_divide_distrib)
    have c1: "d * hue2rgb 0 1 (h0 + 1 / 3) = x - mn"
    proof -
      have e: "hue2rgb 0 1 (h0 + 1 / 3) = 1"
        by (rule hue2rgb_unit_pieces(2)) (use ub h in linarith)+
      have v: "hue2rgb 0 1 (h0 + 1 / 3) = 1"
        unfolding e using h by simp
      show ?thesis unfolding v using mnd by simp
    qed
    have c2: "d * hue2rgb 0 1 (h0) = y - mn"
    proof -
      have e: "hue2rgb 0 1 (h0) = 6 * h0"
        by (rule hue2rgb_unit_pieces(1)) (use ub h in linarith)+
      have v: "hue2rgb 0 1 (h0) = u"
        unfolding e using h by simp
      show ?thesis unfolding v using ud mnd(1) by simp
    qed
    have c3: "d * hue2rgb 0 1 (h0 - 1 / 3) = z - mn"
    proof -
      have e: "hue2rgb 0 1 (h0 - 1 / 3) = 0"
        by (rule hue2rgb_unit_pieces(5)) (use ub h in linarith)+
      have v: "hue2rgb 0 1 (h0 - 1 / 3) = 0"
        unfolding e using h by simp
      show ?thesis unfolding v using mnd(1) by simp
    qed
    have hb: "0 \<le> h0" "h0 \<le> 1" using ub h by linarith+
    show ?thesis using hb c1 c2 c3 by simp
  next
    case B
    define u where "u = (y - z) / d"
    have mnd: "mn = y" "d = x - y"
      using B mx mn d by (auto simp: max_def min_def split: if_splits)
    have ud: "d * u = y - z" using dpos by (simp add: u_def)
    have ub: "-1 \<le> u" "u < 0"
      using B dpos mx mnd by (simp_all add: u_def max_def field_simps split: if_splits)
    have h: "h0 = u / 6 + 1" using B h0 by (simp add: u_def add_divide_distrib)
    have c1: "d * hue2rgb 0 1 (h0 + 1 / 3) = x - mn"
    proof -
      have e: "hue2rgb 0 1 (h0 + 1 / 3) = 1"
        by (rule hue2rgb_unit_pieces(7)) (use ub h in linarith)+
      have v: "hue2rgb 0 1 (h0 + 1 / 3) = 1"
        unfolding e using h by simp
      show ?thesis unfolding v using mnd by simp
    qed
    have c2: "d * hue2rgb 0 1 (h0) = y - mn"
    proof -
      have e: "hue2rgb 0 1 (h0) = 0"
        by (rule hue2rgb_unit_pieces(4)) (use ub h in linarith)+
      have v: "hue2rgb 0 1 (h0) = 0"
        unfolding e using h by simp
      show ?thesis unfolding v using mnd(1) by simp
    qed
    have c3: "d * hue2rgb 0 1 (h0 - 1 / 3) = z - mn"
    proof -
      have e: "hue2rgb 0 1 (h0 - 1 / 3) = 4 - 6 * (h0 - 1 / 3)"
        by (rule hue2rgb_unit_pieces(3)) (use ub h in linarith)+
      have v: "hue2rgb 0 1 (h0 - 1 / 3) = - u"
        unfolding e using h by simp
      have "d * (- u) = - (d * u)" by simp
      then show ?thesis unfolding v using ud mnd(1) by linarith
    qed
    have hb: "0 \<le> h0" "h0 \<le> 1" using ub h by linarith+
    show ?thesis using hb c1 c2 c3 by simp
  next
    case C1
    define u where "u = (z - x) / d"
    have mnd: "mn = x" "d = y - x"
      using C1 mx mn d by (auto simp: max_def min_def split: if_splits)
    have ud: "d * u = z - x" using dpos by (simp add: u_def)
    have ub: "0 \<le> u" "u \<le> 1"
      using C1 dpos mx mnd by (simp_all add: u_def max_def field_simps split: if_splits)
    have h: "h0 = u / 6 + 1 / 3" using C1 h0 by (simp add: u_def add_divide_distrib)
    have c1: "d * hue2rgb 0 1 (h0 + 1 / 3) = x - mn"
    proof -
      have e: "hue2rgb 0 1 (h0 + 1 / 3) = 0"
        by (rule hue2rgb_unit_pieces(4)) (use ub h in linarith)+
      have v: "hue2rgb 0 1 (h0 + 1 / 3) = 0"
        unfolding e using h by simp
      show ?thesis unfolding v using mnd(1) by simp
    qed
    have c2: "d * hue2rgb 0 1 (h0) = y - mn"
    proof -
      have e: "hue2rgb 0 1 (h0) = 1"
        by (rule hue2rgb_unit_pieces(2)) (use ub h in linarith)+
      have v: "hue2rgb 0 1 (h0) = 1"
        unfolding e using h by simp
      show ?thesis unfolding v using mnd by simp
    qed
    have c3: "d * hue2rgb 0 1 (h0 - 1 / 3) = z - mn"
    proof -
      have e: "hue2rgb 0 1 (h0 - 1 / 3) = 6 * (h0 - 1 / 3)"
        by (rule hue2rgb_unit_pieces(1)) (use ub h in linarith)+
      have v: "hue2rgb 0 1 (h0 - 1 / 3) = u"
        unfolding e using h by simp
      show ?thesis unfolding v using ud mnd(1) by simp
    qed
    have hb: "0 \<le> h0" "h0 \<le> 1" using ub h by linarith+
    show ?thesis using hb c1 c2 c3 by simp
  next
    case C2
    define u where "u = (z - x) / d"
    have mnd: "mn = z" "d = y - z"
      using C2 mx mn d by (auto simp: max_def min_def split: if_splits)
    have ud: "d * u = z - x" using dpos by (simp add: u_def)
    have ub: "-1 \<le> u" "u < 0"
      using C2 dpos mx mnd by (simp_all add: u_def max_def field_simps split: if_splits)
    have h: "h0 = u / 6 + 1 / 3" using C2 h0 by (simp add: u_def add_divide_distrib)
    have c1: "d * hue2rgb 0 1 (h0 + 1 / 3) = x - mn"
    proof -
      have e: "hue2rgb 0 1 (h0 + 1 / 3) = 4 - 6 * (h0 + 1 / 3)"
        by (rule hue2rgb_unit_pieces(3)) (use ub h in linarith)+
      have v: "hue2rgb 0 1 (h0 + 1 / 3) = - u"
        unfolding e using h by simp
      have "d * (- u) = - (d * u)" by simp
      then show ?thesis unfolding v using ud mnd(1) by linarith
    qed
    have c2: "d * hue2rgb 0 1 (h0) = y - mn"
    proof -
      have e: "hue2rgb 0 1 (h0) = 1"
        by (rule hue2rgb_unit_pieces(2)) (use ub h in linarith)+
      have v: "hue2rgb 0 1 (h0) = 1"
        unfolding e using h by simp
      show ?thesis unfolding v using mnd by simp
    qed
    have c3: "d * hue2rgb 0 1 (h0 - 1 / 3) = z - mn"
    proof -
      have e: "hue2rgb 0 1 (h0 - 1 / 3) = 0"
        by (rule hue2rgb_unit_pieces(5)) (use ub h in linarith)+
      have v: "hue2rgb 0 1 (h0 - 1 / 3) = 0"
        unfolding e using h by simp
      show ?thesis unfolding v using mnd(1) by simp
    qed
    have hb: "0 \<le> h0" "h0 \<le> 1" using ub h by linarith+
    show ?thesis using hb c1 c2 c3 by simp
  next
    case D1
    define u where "u = (x - y) / d"
    have mxz: "mx = z" using D1 mx by (auto simp: max_def split: if_splits)
    have mnd: "mn = y" "d = z - y"
      using D1 mx mn d by (auto simp: max_def min_def split: if_splits)
    have ud: "d * u = x - y" using dpos by (simp add: u_def)
    have ub: "0 \<le> u" "u \<le> 1"
      using D1 dpos mx mnd by (simp_all add: u_def max_def field_simps split: if_splits)
    have h: "h0 = u / 6 + 2 / 3" using D1 h0 by (simp add: u_def add_divide_distrib)
    have c1: "d * hue2rgb 0 1 (h0 + 1 / 3) = x - mn"
    proof -
      have v: "hue2rgb 0 1 (h0 + 1 / 3) = u"
      proof (cases "u = 0")
        case True
        have "hue2rgb 0 1 (h0 + 1 / 3) = 0"
          by (rule hue2rgb_unit_pieces(4)) (use True h in linarith)+
        with True show ?thesis by simp
      next
        case False
        have "hue2rgb 0 1 (h0 + 1 / 3) = 6 * (h0 + 1 / 3 - 1)"
          by (rule hue2rgb_unit_pieces(6)) (use False ub h in linarith)+
        then show ?thesis by (simp add: h)
      qed
      show ?thesis unfolding v using ud mnd(1) by simp
    qed
    have c2: "d * hue2rgb 0 1 (h0) = y - mn"
    proof -
      have e: "hue2rgb 0 1 (h0) = 0"
        by (rule hue2rgb_unit_pieces(4)) (use ub h in linarith)+
      have v: "hue2rgb 0 1 (h0) = 0"
        unfolding e using h by simp
      show ?thesis unfolding v using mnd(1) by simp
    qed
    have c3: "d * hue2rgb 0 1 (h0 - 1 / 3) = z - mn"
    proof -
      have e: "hue2rgb 0 1 (h0 - 1 / 3) = 1"
        by (rule hue2rgb_unit_pieces(2)) (use ub h in linarith)+
      have v: "hue2rgb 0 1 (h0 - 1 / 3) = 1"
        unfolding e using h by simp
      show ?thesis unfolding v using mnd by simp
    qed
    have hb: "0 \<le> h0" "h0 \<le> 1" using ub h by linarith+
    show ?thesis using hb c1 c2 c3 by simp
  next
    case D2
    define u where "u = (x - y) / d"
    have mxz: "mx = z" using D2 mx by (auto simp: max_def split: if_splits)
    have mnd: "mn = x" "d = z - x"
      using D2 mx mn d by (auto simp: max_def min_def split: if_splits)
    have ud: "d * u = x - y" using dpos by (simp add: u_def)
    have ub: "-1 \<le> u" "u < 0"
      using D2 dpos mx mnd by (simp_all add: u_def max_def field_simps split: if_splits)
    have h: "h0 = u / 6 + 2 / 3" using D2 h0 by (simp add: u_def add_divide_distrib)
    have c1: "d * hue2rgb 0 1 (h0 + 1 / 3) = x - mn"
    proof -
      have e: "hue2rgb 0 1 (h0 + 1 / 3) = 0"
        by (rule hue2rgb_unit_pieces(4)) (use ub h in linarith)+
      have v: "hue2rgb 0 1 (h0 + 1 / 3) = 0"
        unfolding e using h by simp
      show ?thesis unfolding v using mnd(1) by simp
    qed
    have c2: "d * hue2rgb 0 1 (h0) = y - mn"
    proof -
      have e: "hue2rgb 0 1 (h0) = 4 - 6 * h0"
        by (rule hue2rgb_unit_pieces(3)) (use ub h in linarith)+
      have v: "hue2rgb 0 1 (h0) = - u"
        unfolding e using h by simp
      have "d * (- u) = - (d * u)" by simp
      then show ?thesis unfolding v using ud mnd(1) by linarith
    qed
    have c3: "d * hue2rgb 0 1 (h0 - 1 / 3) = z - mn"
    proof -
      have e: "hue2rgb 0 1 (h0 - 1 / 3) = 1"
        by (rule hue2rgb_unit_pieces(2)) (use ub h in linarith)+
      have v: "hue2rgb 0 1 (h0 - 1 / 3) = 1"
        unfolding e using h by simp
      show ?thesis unfolding v using mnd by simp
    qed
    have hb: "0 \<le> h0" "h0 \<le> 1" using ub h by linarith+
    show ?thesis using hb c1 c2 c3 by simp
  qed
qed


lemma sat_exact:
  fixes mx mn :: real
  assumes "0 \<le> mn" "mn < mx" "mx \<le> 1"
    and l0: "l0 = (mx + mn) / 2" and d: "d = mx - mn"
    and s0: "s0 = (if l0 > 0.5 then d / (2 - mx - mn) else d / (mx + mn))"
  shows "d \<le> s0 \<and> s0 \<le> 1 \<and> s0 * min l0 (1 - l0) = d / 2"
proof (cases "l0 > 0.5")
  case True
  have den: "0 < 2 - mx - mn" "2 - mx - mn \<le> 1" using assms True by simp_all
  have s: "s0 = d / (2 - mx - mn)" using s0 True by simp
  have dpos: "0 \<le> d" using assms by simp
  have "d \<le> s0"
    unfolding s using den dpos by (simp add: pos_le_divide_eq mult_left_le)
  moreover have "s0 \<le> 1"
    unfolding s using den assms by (simp add: pos_divide_le_eq)
  moreover have "s0 * min l0 (1 - l0) = d / 2"
  proof -
    have m: "min l0 (1 - l0) = (2 - mx - mn) / 2"
      using True l0 by (simp add: min_def field_simps)
    have "s0 * min l0 (1 - l0) = d / (2 - mx - mn) * ((2 - mx - mn) / 2)"
      unfolding s m by (rule refl)
    also have "\<dots> = d / 2" using den by simp
    finally show ?thesis .
  qed
  ultimately show ?thesis by simp
next
  case False
  have den: "0 < mx + mn" "mx + mn \<le> 1" using assms False by simp_all
  have s: "s0 = d / (mx + mn)" using s0 False by simp
  have dpos: "0 \<le> d" using assms by simp
  have "d \<le> s0"
    unfolding s using den dpos by (simp add: pos_le_divide_eq mult_left_le)
  moreover have "s0 \<le> 1"
    unfolding s using den assms by (simp add: pos_divide_le_eq)
  moreover have "s0 * min l0 (1 - l0) = d / 2"
  proof -
    have m: "min l0 (1 - l0) = (mx + mn) / 2"
      using False l0 by (simp add: min_def field_simps)
    have "s0 * min l0 (1 - l0) = d / (mx + mn) * ((mx + mn) / 2)"
      unfolding s m by (rule refl)
    also have "\<dots> = d / 2" using den by simp
    finally show ?thesis .
  qed
  ultimately show ?thesis by simp
qed

lemma q_formula:
  fixes l' s' :: real
  shows "(if l' < 0.5 then l' * (1 + s') else l' + s' - l' * s') = l' + s' * min l' (1 - l')"
  by (simp add: min_def algebra_simps)

lemma channel_bound:
  fixes l0 l' s0 s' w0 w' e n :: real
  assumes l0: "0 \<le> l0" "l0 \<le> 1" and l': "0 \<le> l'" "l' \<le> 1" and dl: "\<bar>l' - l0\<bar> \<le> e"
    and s0: "0 \<le> s0" "s0 \<le> 1" and ds: "\<bar>s' - s0\<bar> \<le> e"
    and w': "0 \<le> w'" "w' \<le> 1" and dw: "\<bar>w' - w0\<bar> \<le> n"
    and q0: "q0 = l0 + s0 * min l0 (1 - l0)" and p0: "p0 = 2 * l0 - q0"
    and q': "q' = l' + s' * min l' (1 - l')" and p': "p' = 2 * l' - q'"
  shows "\<bar>(p' + (q' - p') * w') - (p0 + (q0 - p0) * w0)\<bar> \<le> 5 * e / 2 + n"
proof -
  define a0 where "a0 = min l0 (1 - l0)"
  define a' where "a' = min l' (1 - l')"
  have e0: "0 \<le> e" using dl by linarith
  have a'b: "0 \<le> a'" "a' \<le> 1 / 2" using l' by (simp_all add: a'_def min_def)
  have a0b: "0 \<le> a0" "a0 \<le> 1 / 2" using l0 by (simp_all add: a0_def min_def)
  have da: "\<bar>a' - a0\<bar> \<le> e" using dl unfolding a'_def a0_def by linarith
  have t1: "\<bar>(s' - s0) * a'\<bar> \<le> e / 2"
  proof -
    have "\<bar>(s' - s0) * a'\<bar> = \<bar>s' - s0\<bar> * a'" using a'b by (simp add: abs_mult)
    also have "\<dots> \<le> e * (1 / 2)" using ds a'b e0 by (intro mult_mono) simp_all
    finally show ?thesis by simp
  qed
  have t2: "\<bar>s0 * (a' - a0)\<bar> \<le> e"
  proof -
    have "\<bar>s0 * (a' - a0)\<bar> = s0 * \<bar>a' - a0\<bar>" using s0 by (simp add: abs_mult)
    also have "\<dots> \<le> 1 * e" using s0 da by (intro mult_mono) simp_all
    finally show ?thesis by simp
  qed
  have sa: "s' * a' - s0 * a0 = (s' - s0) * a' + s0 * (a' - a0)"
    by (simp add: algebra_simps)
  have eq: "\<bar>q' - q0\<bar> \<le> 5 * e / 2"
    using t1 t2 dl sa unfolding q' q0 a'_def [symmetric] a0_def [symmetric] by linarith
  have ep: "\<bar>p' - p0\<bar> \<le> 5 * e / 2"
    using t1 t2 dl sa unfolding p' p0 q' q0 a'_def [symmetric] a0_def [symmetric] by linarith
  have gap: "0 \<le> q0 - p0" "q0 - p0 \<le> 1"
  proof -
    have "q0 - p0 = 2 * (s0 * a0)" unfolding p0 q0 a0_def by simp
    moreover have "0 \<le> s0 * a0" using s0 a0b by simp
    moreover have "s0 * a0 \<le> 1 * (1 / 2)" using s0 a0b by (intro mult_mono) simp_all
    ultimately show "0 \<le> q0 - p0" "q0 - p0 \<le> 1" by simp_all
  qed
  have split: "(p' + (q' - p') * w') - (p0 + (q0 - p0) * w0)
                 = (1 - w') * (p' - p0) + w' * (q' - q0) + (w' - w0) * (q0 - p0)"
    by (simp add: algebra_simps)
  have u1: "\<bar>(1 - w') * (p' - p0)\<bar> \<le> (1 - w') * (5 * e / 2)"
  proof -
    have "\<bar>(1 - w') * (p' - p0)\<bar> = (1 - w') * \<bar>p' - p0\<bar>" using w' by (simp add: abs_mult)
    also have "\<dots> \<le> (1 - w') * (5 * e / 2)" using w' ep by (intro mult_left_mono) simp_all
    finally show ?thesis .
  qed
  have u2: "\<bar>w' * (q' - q0)\<bar> \<le> w' * (5 * e / 2)"
  proof -
    have "\<bar>w' * (q' - q0)\<bar> = w' * \<bar>q' - q0\<bar>" using w' by (simp add: abs_mult)
    also have "\<dots> \<le> w' * (5 * e / 2)" using w' eq by (intro mult_left_mono) simp_all
    finally show ?thesis .
  qed
  have u3: "\<bar>(w' - w0) * (q0 - p0)\<bar> \<le> n"
  proof -
    have n0: "0 \<le> n" using dw by linarith
    have "\<bar>(w' - w0) * (q0 - p0)\<bar> = \<bar>w' - w0\<bar> * (q0 - p0)" using gap by (simp add: abs_mult)
    also have "\<dots> \<le> n * 1" using dw gap n0 by (intro mult_mono) simp_all
    finally show ?thesis by simp
  qed
  have "(1 - w') * (5 * e / 2) + w' * (5 * e / 2) = 5 * e / 2"
    by (simp add: field_simps)
  with u1 u2 u3 show ?thesis unfolding split by linarith
qed


lemma rgbToHsl_unrounded:
  "rgbToHsl rgb =
     \<lparr> h = jsRound (h (unroundedHsl rgb) * 360 * 10) / 10,
       s = jsRound (s (unroundedHsl rgb) * 100 * 10) / 10,
       l = jsRound (l (unroundedHsl rgb) * 100 * 10) / 10 \<rparr>"
  by (simp only: rgbToHsl_def unroundedHsl_def Let_def HSL.select_convs)

lemma hslToRgb_gray:
  assumes "s hv = 0"
  shows "hslToRgb hv =
           \<lparr> r = \<lfloor>l hv / 100 * 255 + 1 / 2\<rfloor>, g = \<lfloor>l hv / 100 * 255 + 1 / 2\<rfloor>,
             b = \<lfloor>l hv / 100 * 255 + 1 / 2\<rfloor> \<rparr>"
  using assms by (simp add: hslToRgb_def)

lemma hslToRgb_colour:
  assumes "s hv \<noteq> 0"
    and q: "q = l hv / 100 + s hv / 100 * min (l hv / 100) (1 - l hv / 100)"
    and p: "p = 2 * (l hv / 100) - q"
  shows "hslToRgb hv =
           \<lparr> r = \<lfloor>(p + (q - p) * hue2rgb 0 1 (h hv / 360 + 1 / 3)) * 255 + 1 / 2\<rfloor>,
             g = \<lfloor>(p + (q - p) * hue2rgb 0 1 (h hv / 360)) * 255 + 1 / 2\<rfloor>,
             b = \<lfloor>(p + (q - p) * hue2rgb 0 1 (h hv / 360 - 1 / 3)) * 255 + 1 / 2\<rfloor> \<rparr>"
proof -
  have qf: "(if l hv / 100 < 0.5 then l hv / 100 * (1 + s hv / 100)
             else l hv / 100 + s hv / 100 - l hv / 100 * (s hv / 100)) = q"
    unfolding q by (rule q_formula)
  have "hslToRgb hv =
           \<lparr> r = \<lfloor>hue2rgb p q (h hv / 360 + 1 / 3) * 255 + 1 / 2\<rfloor>,
             g = \<lfloor>hue2rgb p q (h hv / 360) * 255 + 1 / 2\<rfloor>,
             b = \<lfloor>hue2rgb p q (h hv / 360 - 1 / 3) * 255 + 1 / 2\<rfloor> \<rparr>"
    using assms(1) unfolding hslToRgb_def Let_def qf p by simp
  then show ?thesis
    by (simp only: hue2rgb_affine [of p q])
qed


lemma jsRound_range:
  assumes "0 \<le> y" "y \<le> of_int n"
  shows "0 \<le> jsRound y \<and> jsRound y \<le> of_int n"
proof -
  have "0 \<le> \<lfloor>y + 1 / 2\<rfloor>" using assms(1) by simp
  moreover have "\<lfloor>y + 1 / 2\<rfloor> \<le> n" using assms(2) by linarith
  ultimately show ?thesis by (simp add: jsRound_def)
qed

lemma rounded_fraction:
  assumes "0 \<le> v" "v \<le> 1" "0 < k"
  shows "\<bar>jsRound (v * real_of_int k) / real_of_int k - v\<bar> \<le> 1 / (2 * real_of_int k)
         \<and> 0 \<le> jsRound (v * real_of_int k) / real_of_int k
         \<and> jsRound (v * real_of_int k) / real_of_int k \<le> 1"
proof -
  have kpos: "0 < real_of_int k" using assms(3) by simp
  have near: "\<bar>jsRound (v * real_of_int k) - v * real_of_int k\<bar> \<le> 1 / 2"
    by (rule jsRound_near)
  have "jsRound (v * real_of_int k) / real_of_int k - v
          = (jsRound (v * real_of_int k) - v * real_of_int k) / real_of_int k"
    using kpos by (simp add: field_simps)
  then have "\<bar>jsRound (v * real_of_int k) / real_of_int k - v\<bar>
          = \<bar>jsRound (v * real_of_int k) - v * real_of_int k\<bar> / real_of_int k"
    using kpos by simp
  also have "\<dots> \<le> (1 / 2) / real_of_int k"
    using near kpos by (intro divide_right_mono) simp_all
  finally have a: "\<bar>jsRound (v * real_of_int k) / real_of_int k - v\<bar> \<le> 1 / (2 * real_of_int k)"
    by simp
  have "0 \<le> v * real_of_int k" "v * real_of_int k \<le> real_of_int k"
    using assms kpos by (simp_all add: mult_left_le_one_le)
  from jsRound_range [OF this]
  have "0 \<le> jsRound (v * real_of_int k)" "jsRound (v * real_of_int k) \<le> real_of_int k"
    by simp_all
  then have "0 \<le> jsRound (v * real_of_int k) / real_of_int k"
    "jsRound (v * real_of_int k) / real_of_int k \<le> 1"
    using kpos by simp_all
  with a show ?thesis by simp
qed


text \<open>
  Claim C8. For every RGB value whose channels are integers from 0 to 255, converting to
  HSL and back yields channels that each differ from the original by at most 1.
\<close>

theorem hsl_roundtrip_within_one:
  assumes R: "0 \<le> r rgb" "r rgb \<le> 255"
    and G: "0 \<le> g rgb" "g rgb \<le> 255"
    and B: "0 \<le> b rgb" "b rgb \<le> 255"
  shows "\<bar>r (hslToRgb (rgbToHsl rgb)) - r rgb\<bar> \<le> 1
         \<and> \<bar>g (hslToRgb (rgbToHsl rgb)) - g rgb\<bar> \<le> 1
         \<and> \<bar>b (hslToRgb (rgbToHsl rgb)) - b rgb\<bar> \<le> 1"
proof -
  define x where "x = real_of_int (r rgb) / 255"
  define y where "y = real_of_int (g rgb) / 255"
  define z where "z = real_of_int (b rgb) / 255"
  define mx where "mx = max x (max y z)"
  define mn where "mn = min x (min y z)"
  define d where "d = mx - mn"
  define U where "U = unroundedHsl rgb"
  define H where "H = rgbToHsl rgb"
  define h' where "h' = h H / 360"
  define s' where "s' = s H / 100"
  define l' where "l' = l H / 100"
  have xr: "0 \<le> x" "x \<le> 1" using R by (simp_all add: x_def)
  have yr: "0 \<le> y" "y \<le> 1" using G by (simp_all add: y_def)
  have zr: "0 \<le> z" "z \<le> 1" using B by (simp_all add: z_def)
  have mr: "0 \<le> mn" "mn \<le> mx" "mx \<le> 1"
    using xr yr zr by (simp_all add: mx_def mn_def)
  have Ul: "l U = (mx + mn) / 2"
    by (simp only: U_def unroundedHsl_def Let_def HSL.select_convs mx_def mn_def x_def y_def z_def)
  have Us: "s U = (if mx \<noteq> mn
                   then (if (mx + mn) / 2 > 0.5 then d / (2 - mx - mn) else d / (mx + mn))
                   else 0)"
    by (simp only: U_def unroundedHsl_def Let_def HSL.select_convs mx_def mn_def d_def
        x_def y_def z_def)
  have Uh: "h U = (if mx \<noteq> mn
                   then (if mx = x then ((y - z) / d + (if y < z then 6 else 0)) / 6
                         else if mx = y then ((z - x) / d + 2) / 6
                         else ((x - y) / d + 4) / 6)
                   else 0)"
    by (simp only: U_def unroundedHsl_def Let_def HSL.select_convs mx_def mn_def d_def
        x_def y_def z_def)
  have Hh: "h' = jsRound (h U * 3600) / 3600"
    and Hs: "s' = jsRound (s U * 1000) / 1000"
    and Hl: "l' = jsRound (l U * 1000) / 1000"
    by (simp_all add: h'_def s'_def l'_def H_def U_def rgbToHsl_unrounded mult.commute)
  have lr: "0 \<le> l U" "l U \<le> 1" using mr by (simp_all add: Ul)
  have l'p: "\<bar>l' - l U\<bar> \<le> 1 / 2000" "0 \<le> l'" "l' \<le> 1"
    using rounded_fraction [of "l U" 1000] lr by (simp_all add: Hl)
  have final: "\<bar>\<lfloor>c * 255 + 1 / 2\<rfloor> - k\<bar> \<le> 1"
    if "\<bar>c - real_of_int k / 255\<bar> \<le> 1 / 480" for c :: real and k :: int
  proof -
    have "\<bar>c * 255 - real_of_int k\<bar> < 3 / 2" using that by linarith
    then show ?thesis by (rule floor_half_near)
  qed
  show ?thesis
  proof (cases "mx = mn")
    case True
    have "s U = 0" using True by (simp add: Us)
    then have "s H = 0" using Hs by (simp add: s'_def jsRound_def)
    then have out: "hslToRgb H =
           \<lparr> r = \<lfloor>l' * 255 + 1 / 2\<rfloor>, g = \<lfloor>l' * 255 + 1 / 2\<rfloor>, b = \<lfloor>l' * 255 + 1 / 2\<rfloor> \<rparr>"
      unfolding l'_def by (rule hslToRgb_gray)
    have mm: "mn \<le> x" "x \<le> mx" "mn \<le> y" "y \<le> mx" "mn \<le> z" "z \<le> mx"
      by (simp_all add: mx_def mn_def)
    have eqs: "x = l U" "y = l U" "z = l U"
      using True mm by (simp_all add: Ul)
    have c1: "\<bar>l' - real_of_int (r rgb) / 255\<bar> \<le> 1 / 480"
      using l'p(1) eqs(1) unfolding x_def by linarith
    have c2: "\<bar>l' - real_of_int (g rgb) / 255\<bar> \<le> 1 / 480"
      using l'p(1) eqs(2) unfolding y_def by linarith
    have c3: "\<bar>l' - real_of_int (b rgb) / 255\<bar> \<le> 1 / 480"
      using l'p(1) eqs(3) unfolding z_def by linarith
    have "\<bar>r (hslToRgb H) - r rgb\<bar> \<le> 1"
      unfolding out RGB.select_convs by (rule final [OF c1])
    moreover have "\<bar>g (hslToRgb H) - g rgb\<bar> \<le> 1"
      unfolding out RGB.select_convs by (rule final [OF c2])
    moreover have "\<bar>b (hslToRgb H) - b rgb\<bar> \<le> 1"
      unfolding out RGB.select_convs by (rule final [OF c3])
    ultimately show ?thesis
      unfolding H_def by (intro conjI)
  next
    case False
    have lt: "mn < mx" using False mr by simp
    have dpos: "0 < d" using lt by (simp add: d_def)
    have sat: "d \<le> s U \<and> s U \<le> 1 \<and> s U * min (l U) (1 - l U) = d / 2"
      using mr(1) lt mr(3) Ul
    proof (rule sat_exact)
      show "d = mx - mn" by (rule d_def)
      show "s U = (if 5 / 10 < l U then d / (2 - mx - mn) else d / (mx + mn))"
        using False by (simp add: Us Ul)
    qed
    have hue: "0 \<le> h U \<and> h U \<le> 1
         \<and> d * hue2rgb 0 1 (h U + 1 / 3) = x - mn
         \<and> d * hue2rgb 0 1 (h U) = y - mn
         \<and> d * hue2rgb 0 1 (h U - 1 / 3) = z - mn"
      using mx_def mn_def False d_def
    proof (rule hue_exact)
      show "h U = (if mx = x then ((y - z) / d + (if y < z then 6 else 0)) / 6
                   else if mx = y then ((z - x) / d + 2) / 6
                   else ((x - y) / d + 4) / 6)"
        using False by (simp add: Uh)
    qed
    have sr: "0 \<le> s U" "s U \<le> 1" using sat dpos by simp_all
    have s'p: "\<bar>s' - s U\<bar> \<le> 1 / 2000"
      using rounded_fraction [of "s U" 1000] sr by (simp add: Hs)
    have h'p: "\<bar>h' - h U\<bar> \<le> 1 / 7200" "0 \<le> h'" "h' \<le> 1"
      using rounded_fraction [of "h U" 3600] hue by (simp_all add: Hh)
    have dint: "1 / 255 \<le> d"
    proof -
      define im where "im = min (r rgb) (min (g rgb) (b rgb))"
      define iM where "iM = max (r rgb) (max (g rgb) (b rgb))"
      have "mx = real_of_int iM / 255" "mn = real_of_int im / 255"
        unfolding mx_def mn_def x_def y_def z_def iM_def im_def
        by (simp_all add: max_def min_def divide_le_cancel)
      then have dd: "d = real_of_int (iM - im) / 255"
        by (simp add: d_def diff_divide_distrib)
      with dpos have "0 < iM - im" by simp
      then have "1 \<le> real_of_int (iM - im)" by linarith
      then show ?thesis unfolding dd by simp
    qed
    have "s' \<noteq> 0"
    proof -
      have "1 / 255 \<le> s U" using dint sat by linarith
      with s'p show ?thesis by linarith
    qed
    then have sH: "s H \<noteq> 0" by (simp add: s'_def)
    define q' where "q' = l' + s' * min l' (1 - l')"
    define p' where "p' = 2 * l' - q'"
    define q0 where "q0 = l U + s U * min (l U) (1 - l U)"
    define p0 where "p0 = 2 * l U - q0"
    have out: "hslToRgb H =
           \<lparr> r = \<lfloor>(p' + (q' - p') * hue2rgb 0 1 (h' + 1 / 3)) * 255 + 1 / 2\<rfloor>,
             g = \<lfloor>(p' + (q' - p') * hue2rgb 0 1 h') * 255 + 1 / 2\<rfloor>,
             b = \<lfloor>(p' + (q' - p') * hue2rgb 0 1 (h' - 1 / 3)) * 255 + 1 / 2\<rfloor> \<rparr>"
      unfolding h'_def
      by (rule hslToRgb_colour [OF sH]) (simp_all add: q'_def p'_def l'_def s'_def)
    have pr: "s U * min (l U) (1 - l U) = d / 2" using sat by simp
    have q0v: "q0 = l U + d / 2" unfolding q0_def pr by (rule refl)
    have p0v: "p0 = mn" unfolding p0_def q0v Ul d_def by (simp add: field_simps)
    have gap: "q0 - p0 = d" unfolding p0v q0v Ul d_def by (simp add: field_simps)
    have gap2: "q0 - mn = d" using gap p0v by simp
    have chan: "\<bar>(p' + (q' - p') * hue2rgb 0 1 (h' + off)) - v\<bar> \<le> 1 / 480"
      if off: "- 1 / 3 \<le> off" "off \<le> 1 / 3" and v: "d * hue2rgb 0 1 (h U + off) = v - mn"
      for off v :: real
    proof -
      have rng: "-1 \<le> h' + off" "h' + off \<le> 2" "-1 \<le> h U + off" "h U + off \<le> 2"
        using off h'p hue by linarith+
      have w': "0 \<le> hue2rgb 0 1 (h' + off)" "hue2rgb 0 1 (h' + off) \<le> 1"
        using hue2rgb_unit_range [OF rng(1,2)] by simp_all
      have "\<bar>hue2rgb 0 1 (h' + off) - hue2rgb 0 1 (h U + off)\<bar> \<le> 6 * \<bar>(h' + off) - (h U + off)\<bar>"
        by (rule hue2rgb_unit_lipschitz [OF rng])
      then have dw: "\<bar>hue2rgb 0 1 (h' + off) - hue2rgb 0 1 (h U + off)\<bar> \<le> 1 / 1200"
        using h'p(1) by simp
      have "\<bar>(p' + (q' - p') * hue2rgb 0 1 (h' + off)) - (p0 + (q0 - p0) * hue2rgb 0 1 (h U + off))\<bar>
              \<le> 5 * (1 / 2000) / 2 + 1 / 1200"
        using lr l'p(2,3) l'p(1) sr s'p w' dw q0_def p0_def q'_def p'_def
        by (rule channel_bound)
      moreover have "p0 + (q0 - p0) * hue2rgb 0 1 (h U + off) = v"
        unfolding p0v gap2 using v by linarith
      ultimately show ?thesis by simp
    qed
    have c1: "\<bar>(p' + (q' - p') * hue2rgb 0 1 (h' + 1 / 3)) - real_of_int (r rgb) / 255\<bar> \<le> 1 / 480"
      using chan [of "1 / 3" x] hue by (simp add: x_def)
    have c2: "\<bar>(p' + (q' - p') * hue2rgb 0 1 h') - real_of_int (g rgb) / 255\<bar> \<le> 1 / 480"
      using chan [of 0 y] hue by (simp add: y_def)
    have c3: "\<bar>(p' + (q' - p') * hue2rgb 0 1 (h' - 1 / 3)) - real_of_int (b rgb) / 255\<bar> \<le> 1 / 480"
      using chan [of "- 1 / 3" z] hue by (simp add: z_def)
    have "\<bar>r (hslToRgb H) - r rgb\<bar> \<le> 1"
      unfolding out RGB.select_convs by (rule final [OF c1])
    moreover have "\<bar>g (hslToRgb H) - g rgb\<bar> \<le> 1"
      unfolding out RGB.select_convs by (rule final [OF c2])
    moreover have "\<bar>b (hslToRgb H) - b rgb\<bar> \<le> 1"
      unfolding out RGB.select_convs by (rule final [OF c3])
    ultimately show ?thesis
      unfolding H_def by (intro conjI)
  qed
qed


theorem hsl_roundtrip_within_one_witness:
  "\<bar>r (hslToRgb (rgbToHsl \<lparr> r = 26, g = 115, b = 232 \<rparr>)) - 26\<bar> \<le> 1
   \<and> \<bar>g (hslToRgb (rgbToHsl \<lparr> r = 26, g = 115, b = 232 \<rparr>)) - 115\<bar> \<le> 1
   \<and> \<bar>b (hslToRgb (rgbToHsl \<lparr> r = 26, g = 115, b = 232 \<rparr>)) - 232\<bar> \<le> 1"
  using hsl_roundtrip_within_one [of "\<lparr> r = 26, g = 115, b = 232 \<rparr>"] by simp

end
